theory Spec2Isabelle
  imports Complex_Main "HOL-Library.Word" "HOL-Library.Sublist"
begin

section \<open>Strings, markers and the style vector\<close>

text \<open>
  A JavaScript string is a sequence of UTF-16 code units; the regular expressions of
  \<^verbatim>\<open>rtl-support.ts\<close> carry no \<^verbatim>\<open>u\<close> flag, so they work on code units.
\<close>

type_synonym jschar = "16 word"
type_synonym jsstring = "jschar list"

definition js :: "string \<Rightarrow> jsstring" where
  "js s = map of_char s"

definition BOLD_START :: jschar where "BOLD_START = 0xE000"
definition BOLD_END :: jschar where "BOLD_END = 0xE001"
definition UNDERLINE_START :: jschar where "UNDERLINE_START = 0xE004"
definition UNDERLINE_END :: jschar where "UNDERLINE_END = 0xE005"
definition STRIKE_START :: jschar where "STRIKE_START = 0xE006"
definition STRIKE_END :: jschar where "STRIKE_END = 0xE007"
definition LTR_START :: jschar where "LTR_START = 0xE008"
definition LTR_END :: jschar where "LTR_END = 0xE009"

definition MARKERS :: "jschar list" where
  "MARKERS = [BOLD_START, BOLD_END, UNDERLINE_START, UNDERLINE_END,
              STRIKE_START, STRIKE_END, LTR_START, LTR_END]"

definition SPACE_CHAR :: jschar where "SPACE_CHAR = 0x20"

definition isMarker :: "jschar \<Rightarrow> bool" where
  "isMarker c = (c \<in> set MARKERS)"

record StyleState =
  isBold :: bool
  isUnderline :: bool
  isStrike :: bool
  isLtr :: bool

record TextSegment = StyleState +
  segText :: jsstring

definition initialStyle :: StyleState where
  "initialStyle = \<lparr>isBold = False, isUnderline = False, isStrike = False, isLtr = False\<rparr>"

section \<open>Segmentation (parseSegmentsWithState)\<close>

text \<open>
  \<^verbatim>\<open>word.split(regex)\<close> with the one capturing group \<^verbatim>\<open>(m1|...|m8)\<close>: the parts are
  the runs between markers (possibly empty) with each matched marker between them.
  \<open>cur\<close> is the run read so far.
\<close>

fun splitMarkers :: "jsstring \<Rightarrow> jsstring \<Rightarrow> jsstring list" where
  "splitMarkers cur [] = [cur]"
| "splitMarkers cur (c # cs) =
     (if isMarker c then cur # [c] # splitMarkers [] cs
      else splitMarkers (cur @ [c]) cs)"

text \<open>The \<^verbatim>\<open>for (const part of parts) switch (part)\<close> loop.\<close>

fun parseParts ::
  "jsstring list \<Rightarrow> StyleState \<Rightarrow> TextSegment list \<Rightarrow> TextSegment list \<times> StyleState" where
  "parseParts [] st segments = (segments, st)"
| "parseParts (part # parts) st segments =
     (if part = [BOLD_START] then parseParts parts (st\<lparr>isBold := True\<rparr>) segments
      else if part = [BOLD_END] then parseParts parts (st\<lparr>isBold := False\<rparr>) segments
      else if part = [UNDERLINE_START] then parseParts parts (st\<lparr>isUnderline := True\<rparr>) segments
      else if part = [UNDERLINE_END] then parseParts parts (st\<lparr>isUnderline := False\<rparr>) segments
      else if part = [STRIKE_START] then parseParts parts (st\<lparr>isStrike := True\<rparr>) segments
      else if part = [STRIKE_END] then parseParts parts (st\<lparr>isStrike := False\<rparr>) segments
      else if part = [LTR_START] then parseParts parts (st\<lparr>isLtr := True\<rparr>) segments
      else if part = [LTR_END] then parseParts parts (st\<lparr>isLtr := False\<rparr>) segments
      else if part \<noteq> [] then
        parseParts parts st
          (segments @ [\<lparr>isBold = isBold st, isUnderline = isUnderline st,
                         isStrike = isStrike st, isLtr = isLtr st, segText = part\<rparr>])
      else parseParts parts st segments)"

definition parseSegmentsWithState ::
  "jsstring \<Rightarrow> StyleState \<Rightarrow> TextSegment list \<times> StyleState" where
  "parseSegmentsWithState word st = parseParts (splitMarkers [] word) st []"

definition stripMarkers :: "jsstring \<Rightarrow> jsstring" where
  "stripMarkers t = filter (\<lambda>c. \<not> isMarker c) t"

text \<open>
  \<^verbatim>\<open>toPersianDigits\<close>: \<^verbatim>\<open>\d\<close> is an ASCII digit; \<^verbatim>\<open>parseInt(digit)\<close> is its value,
  the index into the table of the ten digits U+06F0 to U+06F9.
\<close>

definition persianDigits :: "jschar list" where
  "persianDigits = [0x6F0, 0x6F1, 0x6F2, 0x6F3, 0x6F4, 0x6F5, 0x6F6, 0x6F7, 0x6F8, 0x6F9]"

definition isDigit :: "jschar \<Rightarrow> bool" where
  "isDigit c = (0x30 \<le> c \<and> c \<le> 0x39)"

definition toPersianDigits :: "jsstring \<Rightarrow> jsstring" where
  "toPersianDigits t = map (\<lambda>c. if isDigit c then persianDigits ! unat (c - 0x30) else c) t"

section \<open>Numbers\<close>

text \<open>
  A JavaScript number is an IEEE 754 double. The arithmetic is a parameter of the model:
  a type \<open>'n\<close> of numbers with the operations \<^verbatim>\<open>+\<close>, \<^verbatim>\<open>-\<close>, \<^verbatim>\<open>*\<close>, \<^verbatim>\<open>/\<close> and \<^verbatim>\<open>>\<close> the
  source uses, and the number a numeric literal denotes. Nothing is assumed of the
  operations, so a theorem stated for an arbitrary arithmetic \<open>A\<close> holds of the doubles
  with their rounding, infinities and NaN. The arithmetic \<open>exact\<close> of the reals is used
  where a claim speaks of exact arithmetic and in concrete runs on small integers, on
  which double arithmetic is exact as well.
\<close>

record 'n arith =
  nAdd :: "'n \<Rightarrow> 'n \<Rightarrow> 'n"
  nSub :: "'n \<Rightarrow> 'n \<Rightarrow> 'n"
  nMul :: "'n \<Rightarrow> 'n \<Rightarrow> 'n"
  nDiv :: "'n \<Rightarrow> 'n \<Rightarrow> 'n"
  nGt :: "'n \<Rightarrow> 'n \<Rightarrow> bool"
  nLit :: "rat \<Rightarrow> 'n"

definition exact :: "real arith" where
  "exact = \<lparr>nAdd = (\<lambda>a b. a + b), nSub = (\<lambda>a b. a - b), nMul = (\<lambda>a b. a * b),
            nDiv = (\<lambda>a b. a / b), nGt = (\<lambda>a b. a > b), nLit = real_of_rat\<rparr>"

text \<open>An array length, or a difference of array lengths, as a number.\<close>

definition nOfInt :: "'n arith \<Rightarrow> int \<Rightarrow> 'n" where
  "nOfInt A k = nLit A (of_int k)"

section \<open>The drawing surface\<close>

text \<open>
  The jsPDF document is outside the repository; it is modelled by the contract the
  printer relies on: a current font (name and style), a font size, pen settings, the
  page size and the list of paint operations issued so far. A painted text records the
  font that was current when it was painted. Glyph metrics are a parameter: the width of
  a text under a font name, a font style and a font size.
\<close>

datatype 'n draw_op =
    Text jsstring 'n 'n bool jsstring jsstring
  | Line 'n 'n 'n 'n
  | AddPage

record 'n pdf_doc =
  docFontName :: jsstring
  docFontStyle :: jsstring
  docFontSize :: 'n
  docLineWidth :: 'n
  docDrawColor :: "'n \<times> 'n \<times> 'n"
  docLineDash :: "'n list \<times> 'n"
  pageWidth :: 'n
  pageHeight :: 'n
  ops :: "'n draw_op list"

type_synonym 'n metrics = "jsstring \<Rightarrow> jsstring \<Rightarrow> 'n \<Rightarrow> jsstring \<Rightarrow> 'n"

definition getTextWidth :: "'n metrics \<Rightarrow> 'n pdf_doc \<Rightarrow> jsstring \<Rightarrow> 'n" where
  "getTextWidth M d t = M (docFontName d) (docFontStyle d) (docFontSize d) t"

definition getFont :: "'n pdf_doc \<Rightarrow> jsstring \<times> jsstring" where
  "getFont d = (docFontName d, docFontStyle d)"

definition setFont :: "'n pdf_doc \<Rightarrow> jsstring \<Rightarrow> jsstring \<Rightarrow> 'n pdf_doc" where
  "setFont d name style = d\<lparr>docFontName := name, docFontStyle := style\<rparr>"

definition getFontSize :: "'n pdf_doc \<Rightarrow> 'n" where
  "getFontSize d = docFontSize d"

definition setLineWidth :: "'n pdf_doc \<Rightarrow> 'n \<Rightarrow> 'n pdf_doc" where
  "setLineWidth d w = d\<lparr>docLineWidth := w\<rparr>"

definition setDrawColor :: "'n pdf_doc \<Rightarrow> 'n \<Rightarrow> 'n \<Rightarrow> 'n \<Rightarrow> 'n pdf_doc" where
  "setDrawColor d r g b = d\<lparr>docDrawColor := (r, g, b)\<rparr>"

definition setLineDashPattern :: "'n pdf_doc \<Rightarrow> 'n list \<Rightarrow> 'n \<Rightarrow> 'n pdf_doc" where
  "setLineDashPattern d pat phase = d\<lparr>docLineDash := (pat, phase)\<rparr>"

definition docText :: "'n pdf_doc \<Rightarrow> jsstring \<Rightarrow> 'n \<Rightarrow> 'n \<Rightarrow> bool \<Rightarrow> 'n pdf_doc" where
  "docText d t x y rtl = d\<lparr>ops := ops d @ [Text t x y rtl (docFontName d) (docFontStyle d)]\<rparr>"

definition docLine :: "'n pdf_doc \<Rightarrow> 'n \<Rightarrow> 'n \<Rightarrow> 'n \<Rightarrow> 'n \<Rightarrow> 'n pdf_doc" where
  "docLine d x1 y1 x2 y2 = d\<lparr>ops := ops d @ [Line x1 y1 x2 y2]\<rparr>"

definition addPage :: "'n pdf_doc \<Rightarrow> 'n pdf_doc" where
  "addPage d = d\<lparr>ops := ops d @ [AddPage]\<rparr>"

section \<open>The printer\<close>

datatype alignment = AlignRight | AlignCenter | AlignLeft

text \<open>The readonly fields of \<^verbatim>\<open>RtlRichTextPrinter\<close>, as the constructor leaves them.\<close>

record 'n RtlRichTextPrinter =
  maxWidth :: 'n
  lineHeight :: 'n
  defaultStartX :: 'n
  align :: alignment
  justify :: bool
  marginTop :: 'n
  marginBottom :: 'n
  footerHeight :: 'n
  headerHeight :: 'n
  printerPageHeight :: 'n
  onPageBreak :: "('n \<Rightarrow> 'n pdf_doc \<Rightarrow> 'n \<times> 'n pdf_doc) option"
  fontName :: jsstring
  convertDigitsToPersian :: bool
  underlineOffsetRatio :: 'n
  strikeOffsetRatio :: 'n

record 'n RtlPrinterConfig =
  cfg_maxWidth :: 'n
  cfg_lineHeight :: 'n
  cfg_defaultStartX :: "'n option"
  cfg_align :: "alignment option"
  cfg_justify :: "bool option"
  cfg_marginTop :: "'n option"
  cfg_marginBottom :: "'n option"
  cfg_footerHeight :: "'n option"
  cfg_headerHeight :: "'n option"
  cfg_onPageBreak :: "('n \<Rightarrow> 'n pdf_doc \<Rightarrow> 'n \<times> 'n pdf_doc) option"
  cfg_fontName :: jsstring
  cfg_convertDigitsToPersian :: "bool option"
  cfg_underlineOffsetRatio :: "'n option"
  cfg_strikeOffsetRatio :: "'n option"

text \<open>\<^verbatim>\<open>a ?? b\<close>\<close>

definition orElse :: "'a option \<Rightarrow> 'a \<Rightarrow> 'a" where
  "orElse v dflt = (case v of Some a \<Rightarrow> a | None \<Rightarrow> dflt)"

definition constructor ::
  "'n arith \<Rightarrow> 'n RtlPrinterConfig \<Rightarrow> 'n pdf_doc \<Rightarrow> 'n RtlRichTextPrinter" where
  "constructor A config d =
     \<lparr>maxWidth = nSub A (cfg_maxWidth config) (nLit A 5),
      lineHeight = cfg_lineHeight config,
      defaultStartX = orElse (cfg_defaultStartX config) (nSub A (pageWidth d) (nLit A 10)),
      align = orElse (cfg_align config) AlignRight,
      justify = orElse (cfg_justify config) True,
      marginTop = orElse (cfg_marginTop config) (nLit A 10),
      marginBottom = orElse (cfg_marginBottom config) (nLit A 10),
      footerHeight = orElse (cfg_footerHeight config) (nLit A 0),
      headerHeight = orElse (cfg_headerHeight config) (nLit A 0),
      printerPageHeight = pageHeight d,
      onPageBreak = cfg_onPageBreak config,
      fontName = cfg_fontName config,
      convertDigitsToPersian = orElse (cfg_convertDigitsToPersian config) True,
      underlineOffsetRatio = orElse (cfg_underlineOffsetRatio config) (nLit A (18 / 100)),
      strikeOffsetRatio = orElse (cfg_strikeOffsetRatio config) (nLit A (1 / 10))\<rparr>"

section \<open>Measurement (getWordWidthWithState)\<close>

definition weightOf :: "TextSegment \<Rightarrow> jsstring" where
  "weightOf segment = (if isBold segment then js ''bold'' else js ''normal'')"

definition textForMeasure :: "'n RtlRichTextPrinter \<Rightarrow> TextSegment \<Rightarrow> jsstring" where
  "textForMeasure P segment =
     (if convertDigitsToPersian P \<and> \<not> isLtr segment then toPersianDigits (segText segment)
      else segText segment)"

text \<open>The \<^verbatim>\<open>for (const segment of segments)\<close> loop of the measurement.\<close>

fun measureLoop ::
  "'n arith \<Rightarrow> 'n metrics \<Rightarrow> 'n RtlRichTextPrinter \<Rightarrow> TextSegment list \<Rightarrow> 'n \<Rightarrow> 'n pdf_doc
     \<Rightarrow> 'n \<times> 'n pdf_doc" where
  "measureLoop A M P [] width d = (width, d)"
| "measureLoop A M P (segment # segments) width d =
     (let d1 = setFont d (fontName P) (weightOf segment)
      in measureLoop A M P segments
           (nAdd A width (getTextWidth M d1 (textForMeasure P segment))) d1)"

definition getWordWidthWithState ::
  "'n arith \<Rightarrow> 'n metrics \<Rightarrow> 'n RtlRichTextPrinter \<Rightarrow> 'n pdf_doc \<Rightarrow> jsstring \<Rightarrow> StyleState
     \<Rightarrow> 'n \<times> StyleState \<times> 'n pdf_doc" where
  "getWordWidthWithState A M P d word st =
     (let (segments, nextState) = parseSegmentsWithState word st;
          currentFont = getFont d;
          (width, d1) = measureLoop A M P segments (nLit A 0) d;
          d2 = setFont d1 (fst currentFont) (snd currentFont)
      in (width, nextState, d2))"

section \<open>Painting one word (renderWordWithState)\<close>

definition printableText :: "'n RtlRichTextPrinter \<Rightarrow> TextSegment \<Rightarrow> jsstring" where
  "printableText P segment =
     (if convertDigitsToPersian P \<and> \<not> isLtr segment then toPersianDigits (segText segment)
      else segText segment)"

definition hasPersianChar :: "jsstring \<Rightarrow> bool" where
  "hasPersianChar t = (\<exists>c \<in> set t. 0x600 \<le> c \<and> c \<le> 0x6FF)"

definition decorated :: "TextSegment option \<Rightarrow> bool" where
  "decorated s = (case s of None \<Rightarrow> False | Some g \<Rightarrow> isUnderline g \<or> isStrike g)"

text \<open>
  The block \<^verbatim>\<open>if (segment.isUnderline || segment.isStrike) { ... }\<close> of the loop body:
  \<open>prev\<close> is \<^verbatim>\<open>segments[i - 1]\<close> (or null), \<open>nxt\<close> is \<^verbatim>\<open>segments[i + 1]\<close> (or null),
  the overlap is 0.3.
\<close>

definition drawDecorations ::
  "'n arith \<Rightarrow> 'n RtlRichTextPrinter \<Rightarrow> 'n \<Rightarrow> 'n \<Rightarrow> TextSegment option \<Rightarrow> TextSegment
     \<Rightarrow> TextSegment option \<Rightarrow> 'n \<Rightarrow> 'n \<Rightarrow> 'n pdf_doc \<Rightarrow> 'n pdf_doc" where
  "drawDecorations A P y fontSize prev segment nxt currentX segmentWidth d =
     (if isUnderline segment \<or> isStrike segment then
        (let rightX = (if decorated prev then nAdd A currentX (nLit A (3 / 10)) else currentX);
             leftX = (if decorated nxt
                      then nSub A (nSub A currentX segmentWidth) (nLit A (3 / 10))
                      else nSub A currentX segmentWidth);
             d1 = setDrawColor (setLineDashPattern d [nLit A 0] (nLit A 0))
                    (nLit A 0) (nLit A 0) (nLit A 0);
             underlineY = nAdd A y (nMul A fontSize (underlineOffsetRatio P));
             strikeY = nSub A y (nMul A fontSize (strikeOffsetRatio P));
             d2 = (if isUnderline segment then docLine d1 rightX underlineY leftX underlineY
                   else d1)
         in if isStrike segment then docLine d2 rightX strikeY leftX strikeY else d2)
      else d)"

text \<open>One round of the \<^verbatim>\<open>for (let i = 0; ...)\<close> loop; it returns the cursor and the surface.\<close>

definition renderSegment ::
  "'n arith \<Rightarrow> 'n metrics \<Rightarrow> 'n RtlRichTextPrinter \<Rightarrow> 'n \<Rightarrow> 'n \<Rightarrow> TextSegment option
     \<Rightarrow> TextSegment \<Rightarrow> TextSegment option \<Rightarrow> 'n \<Rightarrow> 'n pdf_doc \<Rightarrow> 'n \<times> 'n pdf_doc" where
  "renderSegment A M P y fontSize prev segment nxt currentX d =
     (if segText segment \<noteq> [] then
        (let isRtlOutput = (\<not> isLtr segment \<and> hasPersianChar (segText segment));
             fontStyle = weightOf segment;
             currentFont = getFont d;
             d1 = setFont d (fontName P) fontStyle;
             segmentWidth = getTextWidth M d1 (printableText P segment);
             d2 = docText d1 (printableText P segment) currentX y isRtlOutput;
             d3 = drawDecorations A P y fontSize prev segment nxt currentX segmentWidth d2
         in (nSub A currentX segmentWidth, setFont d3 (fst currentFont) (snd currentFont)))
      else (currentX, d))"

fun renderSegments ::
  "'n arith \<Rightarrow> 'n metrics \<Rightarrow> 'n RtlRichTextPrinter \<Rightarrow> 'n \<Rightarrow> 'n \<Rightarrow> TextSegment option
     \<Rightarrow> TextSegment list \<Rightarrow> 'n \<Rightarrow> 'n pdf_doc \<Rightarrow> 'n \<times> 'n pdf_doc" where
  "renderSegments A M P y fontSize prev [] currentX d = (currentX, d)"
| "renderSegments A M P y fontSize prev (segment # rest) currentX d =
     (let (x1, d1) = renderSegment A M P y fontSize prev segment
                       (case rest of [] \<Rightarrow> None | n # _ \<Rightarrow> Some n) currentX d
      in renderSegments A M P y fontSize (Some segment) rest x1 d1)"

definition renderWordWithState ::
  "'n arith \<Rightarrow> 'n metrics \<Rightarrow> 'n RtlRichTextPrinter \<Rightarrow> 'n pdf_doc \<Rightarrow> jsstring \<Rightarrow> 'n \<Rightarrow> 'n
     \<Rightarrow> StyleState \<Rightarrow> 'n \<times> StyleState \<times> 'n pdf_doc" where
  "renderWordWithState A M P d word x y st =
     (let (segments, nextState) = parseSegmentsWithState word st;
          fontSize = getFontSize d;
          d1 = setLineWidth d (nLit A (15 / 100));
          (currentX, d2) = renderSegments A M P y fontSize None segments x d1;
          d3 = setFont d2 (fontName P) (js ''normal'')
      in (currentX, nextState, d3))"

section \<open>Page breaks (checkPageBreak)\<close>

text \<open>The mutable part of the printer: the drawing surface and the page counter.\<close>

record 'n printer_state =
  doc :: "'n pdf_doc"
  pageCounter :: 'n

definition checkPageBreak ::
  "'n arith \<Rightarrow> 'n RtlRichTextPrinter \<Rightarrow> 'n printer_state \<Rightarrow> 'n \<Rightarrow> 'n \<times> 'n printer_state" where
  "checkPageBreak A P s y =
     (let threshold = nSub A (nSub A (printerPageHeight P) (footerHeight P)) (marginBottom P)
      in if nGt A (nAdd A (nAdd A y (lineHeight P)) (nLit A 2)) threshold then
           (let d1 = addPage (doc s);
                pc = nAdd A (pageCounter s) (nLit A 1)
            in case onPageBreak P of
                 Some f \<Rightarrow>
                   (let (y', d2) = f pc d1
                    in (y', \<lparr>doc = d2, pageCounter = pc\<rparr>))
               | None \<Rightarrow>
                   (nAdd A (marginTop P) (headerHeight P), \<lparr>doc = d1, pageCounter = pc\<rparr>))
         else (y, s))"

section \<open>Painting a line\<close>

text \<open>\<^verbatim>\<open>words.reduce((sum, w) => ..., 0)\<close> with the style vector threaded through.\<close>

fun sumWordWidths ::
  "'n arith \<Rightarrow> 'n metrics \<Rightarrow> 'n RtlRichTextPrinter \<Rightarrow> jsstring list \<Rightarrow> 'n \<Rightarrow> StyleState
     \<Rightarrow> 'n pdf_doc \<Rightarrow> 'n \<times> StyleState \<times> 'n pdf_doc" where
  "sumWordWidths A M P [] acc st d = (acc, st, d)"
| "sumWordWidths A M P (w # ws) acc st d =
     (let (width, st1, d1) = getWordWidthWithState A M P d w st
      in sumWordWidths A M P ws (nAdd A acc width) st1 d1)"

text \<open>
  The painting loop, of the same shape in both renderers: \<open>gapWidth\<close> is the distance the
  cursor moves between two words, \<open>black\<close> says whether the pen colour is set before a gap
  decoration (the regular renderer does, the justified one does not). The cursor and the
  style vector the loop ends with are returned with the surface.
\<close>

fun wordsLoop ::
  "'n arith \<Rightarrow> 'n metrics \<Rightarrow> 'n RtlRichTextPrinter \<Rightarrow> 'n \<Rightarrow> 'n \<Rightarrow> 'n \<Rightarrow> bool
     \<Rightarrow> jsstring list \<Rightarrow> 'n \<Rightarrow> StyleState \<Rightarrow> 'n pdf_doc \<Rightarrow> 'n \<times> StyleState \<times> 'n pdf_doc" where
  "wordsLoop A M P y fontSize gapWidth black [] currentX st d = (currentX, st, d)"
| "wordsLoop A M P y fontSize gapWidth black (word # rest) currentX st d =
     (let (x1, st1, d1) = renderWordWithState A M P d word currentX y st
      in if rest \<noteq> [] then
           (let rightX = x1;
                leftX = nSub A x1 gapWidth;
                underlineY = nAdd A y (nMul A fontSize (underlineOffsetRatio P));
                strikeY = nSub A y (nMul A fontSize (strikeOffsetRatio P));
                d2 = (if isUnderline st1
                      then docLine
                             (if black then setDrawColor d1 (nLit A 0) (nLit A 0) (nLit A 0)
                              else d1)
                             rightX underlineY leftX underlineY
                      else d1);
                d3 = (if isStrike st1
                      then docLine
                             (if black then setDrawColor d2 (nLit A 0) (nLit A 0) (nLit A 0)
                              else d2)
                             rightX strikeY leftX strikeY
                      else d2)
            in wordsLoop A M P y fontSize gapWidth black rest (nSub A x1 gapWidth) st1 d3)
         else wordsLoop A M P y fontSize gapWidth black rest x1 st1 d1)"

definition renderRegularLine ::
  "'n arith \<Rightarrow> 'n metrics \<Rightarrow> 'n RtlRichTextPrinter \<Rightarrow> 'n pdf_doc \<Rightarrow> jsstring list \<Rightarrow> 'n \<Rightarrow> 'n
     \<Rightarrow> StyleState \<Rightarrow> 'n pdf_doc" where
  "renderRegularLine A M P d words startX y initialState =
     (let spaceWidth = getTextWidth M d [SPACE_CHAR];
          (alignmentOffset, d1) =
             (if align P \<noteq> AlignRight then
                (let (total, s2, e) = sumWordWidths A M P words (nLit A 0) initialState d;
                     lineLength =
                       nAdd A total (nMul A (nOfInt A (int (length words) - 1)) spaceWidth);
                     remainingWidth = nSub A (maxWidth P) lineLength
                 in if align P = AlignLeft then (remainingWidth, e)
                    else if align P = AlignCenter then (nDiv A remainingWidth (nLit A 2), e)
                    else (nLit A 0, e))
              else (nLit A 0, d));
          currentX = nSub A startX alignmentOffset;
          fontSize = getFontSize d1;
          (x', st', d2) =
             wordsLoop A M P y fontSize spaceWidth True words currentX initialState d1
      in d2)"

definition extraSpacePerGap ::
  "'n arith \<Rightarrow> 'n RtlRichTextPrinter \<Rightarrow> 'n \<Rightarrow> 'n \<Rightarrow> int \<Rightarrow> 'n" where
  "extraSpacePerGap A P totalWordsWidth spaceWidth spacesCount =
     nDiv A (nSub A (nSub A (maxWidth P) totalWordsWidth)
                    (nMul A spaceWidth (nOfInt A spacesCount)))
            (nOfInt A spacesCount)"

text \<open>
  The justified renderer from the computation of the gap to the end of its painting
  loop, for a line of more than one word.
\<close>

definition justifiedLoop ::
  "'n arith \<Rightarrow> 'n metrics \<Rightarrow> 'n RtlRichTextPrinter \<Rightarrow> 'n pdf_doc \<Rightarrow> jsstring list \<Rightarrow> 'n \<Rightarrow> 'n
     \<Rightarrow> StyleState \<Rightarrow> 'n \<Rightarrow> 'n \<times> StyleState \<times> 'n pdf_doc" where
  "justifiedLoop A M P d1 words startX y initialState totalWordsWidth =
     (let spacesCount = int (length words) - 1;
          spaceWidth = getTextWidth M d1 [SPACE_CHAR];
          extra = extraSpacePerGap A P totalWordsWidth spaceWidth spacesCount;
          fontSize = getFontSize d1
      in wordsLoop A M P y fontSize (nAdd A spaceWidth extra) False words startX
           initialState d1)"

definition renderJustifiedLine ::
  "'n arith \<Rightarrow> 'n metrics \<Rightarrow> 'n RtlRichTextPrinter \<Rightarrow> 'n pdf_doc \<Rightarrow> jsstring list \<Rightarrow> 'n \<Rightarrow> 'n
     \<Rightarrow> StyleState \<Rightarrow> 'n pdf_doc" where
  "renderJustifiedLine A M P d words startX y initialState =
     (let (totalWordsWidth, s, d1) = sumWordWidths A M P words (nLit A 0) initialState d;
          spacesCount = int (length words) - 1
      in if spacesCount \<le> 0 then renderRegularLine A M P d1 words startX y initialState
         else snd (snd (justifiedLoop A M P d1 words startX y initialState totalWordsWidth)))"

definition renderLine ::
  "'n arith \<Rightarrow> 'n metrics \<Rightarrow> 'n RtlRichTextPrinter \<Rightarrow> 'n pdf_doc \<Rightarrow> jsstring list \<Rightarrow> 'n \<Rightarrow> 'n
     \<Rightarrow> bool \<Rightarrow> StyleState \<Rightarrow> 'n pdf_doc" where
  "renderLine A M P d words startX y shouldJustify initialState =
     (if shouldJustify \<and> align P = AlignRight
      then renderJustifiedLine A M P d words startX y initialState
      else renderRegularLine A M P d words startX y initialState)"

section \<open>Line breaking (renderWords)\<close>

text \<open>
  The loop variables of \<^verbatim>\<open>renderWords\<close>: the baseline, the words of the open line, its
  width, the running style vector and the style vector at the start of the open line.
\<close>

record 'n line_vars =
  lv_y :: 'n
  lineWords :: "jsstring list"
  lineWidth :: 'n
  lv_state :: StyleState
  lineStartingState :: StyleState

text \<open>
  One entry for every line \<^verbatim>\<open>renderWords\<close> renders, in order: the arguments given to
  \<^verbatim>\<open>renderLine\<close>, the value of \<^verbatim>\<open>lineWidth\<close> at that moment, the baseline and printer
  state before the page-break check, the printer state it returned and the surface after
  the line was painted. The list is an output of the model only; no computation reads it.
\<close>

record 'n line_event =
  ev_words :: "jsstring list"
  ev_startX :: 'n
  ev_y :: 'n
  ev_shouldJustify :: bool
  ev_startState :: StyleState
  ev_lineWidth :: 'n
  ev_yBefore :: 'n
  ev_stateBefore :: "'n printer_state"
  ev_checked :: "'n printer_state"
  ev_after :: "'n pdf_doc"

text \<open>
  The three statements \<^verbatim>\<open>y = this.checkPageBreak(y); this.renderLine(...); y += this.lineHeight\<close>
  that close a line, at both places of \<^verbatim>\<open>renderWords\<close>.
\<close>

definition closeLine ::
  "'n arith \<Rightarrow> 'n metrics \<Rightarrow> 'n RtlRichTextPrinter \<Rightarrow> 'n \<Rightarrow> bool \<Rightarrow> 'n line_vars
     \<Rightarrow> 'n printer_state \<Rightarrow> 'n \<times> 'n printer_state \<times> 'n line_event" where
  "closeLine A M P startX shouldJustify v s =
     (let (y1, s2) = checkPageBreak A P s (lv_y v);
          d3 = renderLine A M P (doc s2) (lineWords v) startX y1 shouldJustify
                 (lineStartingState v)
      in (nAdd A y1 (lineHeight P), s2\<lparr>doc := d3\<rparr>,
          \<lparr>ev_words = lineWords v, ev_startX = startX, ev_y = y1,
           ev_shouldJustify = shouldJustify, ev_startState = lineStartingState v,
           ev_lineWidth = lineWidth v, ev_yBefore = lv_y v, ev_stateBefore = s,
           ev_checked = s2, ev_after = d3\<rparr>))"

fun renderWordsLoop ::
  "'n arith \<Rightarrow> 'n metrics \<Rightarrow> 'n RtlRichTextPrinter \<Rightarrow> 'n \<Rightarrow> bool \<Rightarrow> 'n \<Rightarrow> jsstring list
     \<Rightarrow> 'n line_vars \<Rightarrow> 'n printer_state \<Rightarrow> 'n line_event list
     \<Rightarrow> 'n line_vars \<times> 'n printer_state \<times> 'n line_event list" where
  "renderWordsLoop A M P startX justifyArg spaceWidth [] v s evs = (v, s, evs)"
| "renderWordsLoop A M P startX justifyArg spaceWidth (word # rest) v s evs =
     (let spaceToUse = (if length (lineWords v) > 0 then spaceWidth else nLit A 0);
          (wordWidth, nextState, d1) = getWordWidthWithState A M P (doc s) word (lv_state v);
          s1 = s\<lparr>doc := d1\<rparr>
      in if nGt A (nAdd A (nAdd A (lineWidth v) wordWidth) spaceToUse) (maxWidth P) then
           (let (y2, s3, ev) = closeLine A M P startX
                                 (justifyArg \<and> length (lineWords v) > 1) v s1
            in renderWordsLoop A M P startX justifyArg spaceWidth rest
                 \<lparr>lv_y = y2, lineWords = [word], lineWidth = wordWidth,
                  lv_state = nextState, lineStartingState = lv_state v\<rparr> s3 (evs @ [ev]))
         else renderWordsLoop A M P startX justifyArg spaceWidth rest
                (v\<lparr>lineWords := lineWords v @ [word],
                   lineWidth := nAdd A (lineWidth v) (nAdd A wordWidth spaceToUse),
                   lv_state := nextState\<rparr>) s1 evs)"

definition renderWords ::
  "'n arith \<Rightarrow> 'n metrics \<Rightarrow> 'n RtlRichTextPrinter \<Rightarrow> 'n printer_state \<Rightarrow> jsstring list \<Rightarrow> 'n
     \<Rightarrow> 'n \<Rightarrow> bool \<Rightarrow> 'n \<times> 'n printer_state \<times> 'n line_event list" where
  "renderWords A M P s words startX startY justifyArg =
     (let spaceWidth = getTextWidth M (doc s) [SPACE_CHAR];
          (v, s1, evs) = renderWordsLoop A M P startX justifyArg spaceWidth words
                      \<lparr>lv_y = startY, lineWords = [], lineWidth = nLit A 0,
                       lv_state = initialStyle, lineStartingState = initialStyle\<rparr> s []
      in if length (lineWords v) > 0 then
           (let (y2, s3, ev) = closeLine A M P startX False v s1
            in (y2, s3, evs @ [ev]))
         else (lv_y v, s1, evs))"

section \<open>Reading the specification\<close>

text \<open>
  The texts painted by a list of paint operations, each with the font name and font style
  it was painted in.
\<close>

fun paintedTexts :: "'n draw_op list \<Rightarrow> (jsstring \<times> jsstring \<times> jsstring) list" where
  "paintedTexts [] = []"
| "paintedTexts (Text t x y rtl name style # rest) = (t, name, style) # paintedTexts rest"
| "paintedTexts (Line x1 y1 x2 y2 # rest) = paintedTexts rest"
| "paintedTexts (AddPage # rest) = paintedTexts rest"

text \<open>
  Segmentation as the specification words it: one pass over the word in which a marker
  sets or clears its one flag of the style vector and a maximal marker-free run becomes a
  segment that extends the vector at that point by the text of the run.
\<close>

definition specMarkerEffect :: "jschar \<Rightarrow> StyleState \<Rightarrow> StyleState" where
  "specMarkerEffect m st =
     (if m = BOLD_START then st\<lparr>isBold := True\<rparr>
      else if m = BOLD_END then st\<lparr>isBold := False\<rparr>
      else if m = UNDERLINE_START then st\<lparr>isUnderline := True\<rparr>
      else if m = UNDERLINE_END then st\<lparr>isUnderline := False\<rparr>
      else if m = STRIKE_START then st\<lparr>isStrike := True\<rparr>
      else if m = STRIKE_END then st\<lparr>isStrike := False\<rparr>
      else if m = LTR_START then st\<lparr>isLtr := True\<rparr>
      else if m = LTR_END then st\<lparr>isLtr := False\<rparr>
      else st)"

definition snapshot :: "StyleState \<Rightarrow> jsstring \<Rightarrow> TextSegment" where
  "snapshot st run = StyleState.extend st (TextSegment.fields run)"

fun specSegments :: "jsstring \<Rightarrow> jsstring \<Rightarrow> StyleState \<Rightarrow> TextSegment list \<times> StyleState" where
  "specSegments [] run st = ((if run = [] then [] else [snapshot st run]), st)"
| "specSegments (c # cs) run st =
     (if isMarker c then
        (let (segs, st') = specSegments cs [] (specMarkerEffect c st)
         in ((if run = [] then [] else [snapshot st run]) @ segs, st'))
      else specSegments cs (run @ [c]) st)"

text \<open>The style vector reached from \<open>st\<close> after the markers of the words \<open>ws\<close>.\<close>

definition stateAfter :: "StyleState \<Rightarrow> jsstring list \<Rightarrow> StyleState" where
  "stateAfter st ws = foldl (\<lambda>st w. snd (parseSegmentsWithState w st)) st ws"


text \<open>
  What painting the word \<open>w\<close> in the incoming style \<open>st\<close> puts on the surface: for every
  segment its text, with the ASCII digits replaced by the digits U+06F0 to U+06F9 when
  digit conversion is on and the segment is not forced left-to-right, in the printer's
  font, bold or normal as the segment says. \<open>paintedWords\<close> is the same for a list of
  words, the style vector handed from word to word.
\<close>

definition paintedWord ::
  "'n RtlRichTextPrinter \<Rightarrow> StyleState \<Rightarrow> jsstring \<Rightarrow> (jsstring \<times> jsstring \<times> jsstring) list" where
  "paintedWord P st w =
     map (\<lambda>g. (if convertDigitsToPersian P \<and> \<not> isLtr g
                then map (\<lambda>c. if 0x30 \<le> c \<and> c \<le> 0x39 then 0x6F0 + (c - 0x30) else c) (segText g)
                else segText g,
                fontName P,
                if isBold g then js ''bold'' else js ''normal''))
       (fst (parseSegmentsWithState w st))"

fun paintedWords ::
  "'n RtlRichTextPrinter \<Rightarrow> StyleState \<Rightarrow> jsstring list \<Rightarrow> (jsstring \<times> jsstring \<times> jsstring) list" where
  "paintedWords P st [] = []"
| "paintedWords P st (w # ws) =
     paintedWord P st w @ paintedWords P (snd (parseSegmentsWithState w st)) ws"

text \<open>The widths measured for the words \<open>ws\<close>, the style vector handed from word to word.\<close>

fun wordWidths ::
  "'n arith \<Rightarrow> 'n metrics \<Rightarrow> 'n RtlRichTextPrinter \<Rightarrow> 'n pdf_doc \<Rightarrow> StyleState \<Rightarrow> jsstring list
     \<Rightarrow> 'n list" where
  "wordWidths A M P d st [] = []"
| "wordWidths A M P d st (w # ws) =
     fst (getWordWidthWithState A M P d w st)
     # wordWidths A M P d (snd (parseSegmentsWithState w st)) ws"

text \<open>
  The line events \<open>evs\<close> lead from the printer state \<open>s\<close> to \<open>s'\<close>: each line is
  checked in the state the one before left behind, and leaves behind the state its check
  returned with the surface it painted.
\<close>

fun threaded :: "'n printer_state \<Rightarrow> 'n line_event list \<Rightarrow> 'n printer_state \<Rightarrow> bool" where
  "threaded s [] s' = (s' = s)"
| "threaded s (e # es) s' =
     (ev_stateBefore e = s \<and> threaded ((ev_checked e)\<lparr>doc := ev_after e\<rparr>) es s')"

text \<open>
  A line event records a real step of the printer: its baseline and checked state are what
  \<^verbatim>\<open>checkPageBreak\<close> returned for the recorded state and baseline before, and its surface is
  what \<^verbatim>\<open>renderLine\<close> made of the checked surface with the recorded arguments.
\<close>

definition eventOk ::
  "'n arith \<Rightarrow> 'n metrics \<Rightarrow> 'n RtlRichTextPrinter \<Rightarrow> 'n \<Rightarrow> 'n line_event \<Rightarrow> bool" where
  "eventOk A M P startX e =
     ((ev_y e, ev_checked e) = checkPageBreak A P (ev_stateBefore e) (ev_yBefore e)
      \<and> ev_startX e = startX
      \<and> ev_after e = renderLine A M P (doc (ev_checked e)) (ev_words e) startX (ev_y e)
                         (ev_shouldJustify e) (ev_startState e))"

text \<open>
  The starting style vector of every line is the vector reached from the initial one after
  the markers of all words of the lines before it.
\<close>

definition chainOk :: "'n line_event list \<Rightarrow> bool" where
  "chainOk evs =
     (\<forall>i < length evs.
        ev_startState (evs ! i) = stateAfter initialStyle (concat (map ev_words (take i evs))))"

section \<open>A small printer for concrete runs\<close>

text \<open>
  Exact arithmetic, a surface of 210 by 100 units, glyphs one unit wide (two in bold), and
  a printer with \<^verbatim>\<open>maxWidth: 15, lineHeight: 10, marginBottom: 10, footerHeight: 10\<close> and
  defaults otherwise. All numbers of the runs are small integers.
\<close>

definition exampleMetrics :: "real metrics" where
  "exampleMetrics name style sz t = real (length t) * (if style = js ''bold'' then 2 else 1)"

definition exampleDoc :: "real pdf_doc" where
  "exampleDoc = \<lparr>docFontName = js ''Vazir'', docFontStyle = js ''normal'', docFontSize = 10,
     docLineWidth = 1, docDrawColor = (0, 0, 0), docLineDash = ([], 0),
     pageWidth = 210, pageHeight = 100, ops = []\<rparr>"

definition exampleConfig :: "real RtlPrinterConfig" where
  "exampleConfig = \<lparr>cfg_maxWidth = 15, cfg_lineHeight = 10, cfg_defaultStartX = None,
     cfg_align = None, cfg_justify = None, cfg_marginTop = None, cfg_marginBottom = Some 10,
     cfg_footerHeight = Some 10, cfg_headerHeight = None, cfg_onPageBreak = None,
     cfg_fontName = js ''Vazir'', cfg_convertDigitsToPersian = None,
     cfg_underlineOffsetRatio = None, cfg_strikeOffsetRatio = None\<rparr>"

definition examplePrinter :: "real RtlRichTextPrinter" where
  "examplePrinter = constructor exact exampleConfig exampleDoc"

definition exampleState :: "real printer_state" where
  "exampleState = \<lparr>doc = exampleDoc, pageCounter = 1\<rparr>"

text \<open>Three words of widths 4, 4 and 2 under the maximum width 10, printed from baseline 20.\<close>

definition exampleRun :: "real \<times> real printer_state \<times> real line_event list" where
  "exampleRun = renderWords exact exampleMetrics examplePrinter exampleState
      [js ''aaaa'', js ''bbbb'', js ''cc''] 200 20 True"

section \<open>Facts about segmentation\<close>

lemma isMarker_iff:
  "isMarker c \<longleftrightarrow> c = BOLD_START \<or> c = BOLD_END \<or> c = UNDERLINE_START \<or> c = UNDERLINE_END
     \<or> c = STRIKE_START \<or> c = STRIKE_END \<or> c = LTR_START \<or> c = LTR_END"
  by (auto simp: isMarker_def MARKERS_def)

lemma snapshot_eq:
  "snapshot st run = \<lparr>isBold = isBold st, isUnderline = isUnderline st,
      isStrike = isStrike st, isLtr = isLtr st, segText = run\<rparr>"
  by (cases st) (simp add: snapshot_def StyleState.defs TextSegment.defs)

lemma snapshot_sel [simp]:
  "segText (snapshot st run) = run"
  "isBold (snapshot st run) = isBold st"
  "isUnderline (snapshot st run) = isUnderline st"
  "isStrike (snapshot st run) = isStrike st"
  "isLtr (snapshot st run) = isLtr st"
  by (simp_all add: snapshot_eq)

lemma parseParts_acc:
  "parseParts parts st (pre @ segs) =
     (pre @ fst (parseParts parts st segs), snd (parseParts parts st segs))"
  by (induction parts arbitrary: st segs) simp_all

lemma parseParts_acc0:
  "parseParts parts st segs = (segs @ fst (parseParts parts st []), snd (parseParts parts st []))"
  using parseParts_acc[of parts st segs "[]"] by simp

lemma parseParts_marker:
  "isMarker m \<Longrightarrow> parseParts ([m] # parts) st segs = parseParts parts (specMarkerEffect m st) segs"
  by (auto simp: isMarker_iff specMarkerEffect_def)

lemma parseParts_run:
  "\<forall>c \<in> set run. \<not> isMarker c \<Longrightarrow>
   parseParts (run # parts) st segs =
     parseParts parts st (segs @ (if run = [] then [] else [snapshot st run]))"
proof -
  assume a: "\<forall>c \<in> set run. \<not> isMarker c"
  have n: "\<And>m. isMarker m \<Longrightarrow> run \<noteq> [m]" using a by auto
  have "run \<noteq> [BOLD_START]" "run \<noteq> [BOLD_END]" "run \<noteq> [UNDERLINE_START]"
       "run \<noteq> [UNDERLINE_END]" "run \<noteq> [STRIKE_START]" "run \<noteq> [STRIKE_END]"
       "run \<noteq> [LTR_START]" "run \<noteq> [LTR_END]"
    by (simp_all add: n isMarker_iff)
  then show ?thesis by (simp add: snapshot_eq)
qed

lemma parse_refines_aux:
  "\<forall>c \<in> set run. \<not> isMarker c \<Longrightarrow>
   parseParts (splitMarkers run word) st [] = specSegments word run st"
proof (induction word arbitrary: run st)
  case Nil
  then show ?case using parseParts_run[of run "[]" st "[]"] by simp
next
  case (Cons c cs)
  show ?case
  proof (cases "isMarker c")
    case True
    have "parseParts (splitMarkers run (c # cs)) st [] =
          parseParts (splitMarkers [] cs) (specMarkerEffect c st)
            (if run = [] then [] else [snapshot st run])"
      using True parseParts_run[OF Cons.prems, of "[c] # splitMarkers [] cs" st "[]"]
      by (simp add: parseParts_marker del: parseParts.simps)
    also have "\<dots> = ((if run = [] then [] else [snapshot st run])
                        @ fst (specSegments cs [] (specMarkerEffect c st)),
                      snd (specSegments cs [] (specMarkerEffect c st)))"
      using Cons.IH[of "[]" "specMarkerEffect c st"]
            parseParts_acc0[of "splitMarkers [] cs" "specMarkerEffect c st"
               "if run = [] then [] else [snapshot st run]"]
      by simp
    finally show ?thesis using True by (simp add: case_prod_beta)
  next
    case False
    then show ?thesis using Cons.IH[of "run @ [c]" st] Cons.prems by simp
  qed
qed

lemma parse_refines: "parseSegmentsWithState word st = specSegments word [] st"
  by (simp add: parseSegmentsWithState_def parse_refines_aux)

lemma specSegments_marker:
  "isMarker c \<Longrightarrow>
   specSegments (c # cs) run st =
     ((if run = [] then [] else [snapshot st run]) @ fst (specSegments cs [] (specMarkerEffect c st)),
      snd (specSegments cs [] (specMarkerEffect c st)))"
  by (simp add: case_prod_beta)

lemma specSegments_plain:
  "\<forall>c \<in> set t. \<not> isMarker c \<Longrightarrow>
   specSegments t run st = ((if run @ t = [] then [] else [snapshot st (run @ t)]), st)"
  by (induction t arbitrary: run) simp_all

lemma specSegments_split:
  "\<forall>c \<in> set t. \<not> isMarker c \<Longrightarrow> isMarker m \<Longrightarrow>
   specSegments (t @ m # rest) run st =
     ((if run @ t = [] then [] else [snapshot st (run @ t)])
        @ fst (specSegments rest [] (specMarkerEffect m st)),
      snd (specSegments rest [] (specMarkerEffect m st)))"
proof (induction t arbitrary: run)
  case Nil
  then show ?case using specSegments_marker[of m rest run st] by simp
next
  case (Cons c t)
  then show ?case by simp
qed

lemma specSegments_nonempty:
  "g \<in> set (fst (specSegments word run st)) \<Longrightarrow> segText g \<noteq> []"
proof (induction word arbitrary: run st)
  case Nil
  then show ?case by (cases "run = []") simp_all
next
  case (Cons c cs)
  show ?case
  proof (cases "isMarker c")
    case True
    have "g \<in> set (if run = [] then [] else [snapshot st run])
          \<or> g \<in> set (fst (specSegments cs [] (specMarkerEffect c st)))"
      using Cons.prems specSegments_marker[OF True, of cs run st] by simp
    then show ?thesis
    proof
      assume "g \<in> set (if run = [] then [] else [snapshot st run])"
      then show ?thesis by (cases "run = []") simp_all
    next
      assume "g \<in> set (fst (specSegments cs [] (specMarkerEffect c st)))"
      then show ?thesis by (rule Cons.IH)
    qed
  next
    case False
    then have "g \<in> set (fst (specSegments cs (run @ [c]) st))" using Cons.prems by simp
    then show ?thesis by (rule Cons.IH)
  qed
qed

lemma specSegments_concat:
  "concat (map segText (fst (specSegments word run st))) = run @ stripMarkers word"
proof (induction word arbitrary: run st)
  case Nil
  then show ?case by (simp add: stripMarkers_def)
next
  case (Cons c cs)
  show ?case
  proof (cases "isMarker c")
    case True
    have "concat (map segText (fst (specSegments (c # cs) run st))) =
          run @ concat (map segText (fst (specSegments cs [] (specMarkerEffect c st))))"
      unfolding specSegments_marker[OF True] by simp
    also have "\<dots> = run @ stripMarkers cs" unfolding Cons.IH by simp
    also have "\<dots> = run @ stripMarkers (c # cs)" using True by (simp add: stripMarkers_def)
    finally show ?thesis .
  next
    case False
    have "concat (map segText (fst (specSegments (c # cs) run st))) =
          concat (map segText (fst (specSegments cs (run @ [c]) st)))"
      using False by simp
    also have "\<dots> = (run @ [c]) @ stripMarkers cs" unfolding Cons.IH by simp
    also have "\<dots> = run @ stripMarkers (c # cs)" using False by (simp add: stripMarkers_def)
    finally show ?thesis .
  qed
qed

lemma parse_nonempty:
  "g \<in> set (fst (parseSegmentsWithState word st)) \<Longrightarrow> segText g \<noteq> []"
  using specSegments_nonempty[of g word "[]" st] by (simp add: parse_refines)

lemma marker_values:
  "BOLD_START \<noteq> BOLD_END" "BOLD_END \<noteq> BOLD_START" "isMarker BOLD_START"
  "isMarker BOLD_END" "isMarker UNDERLINE_START"
  "isMarker UNDERLINE_END" "isMarker STRIKE_START" "isMarker STRIKE_END" "isMarker LTR_START"
  "isMarker LTR_END"
  by (simp_all add: isMarker_iff BOLD_START_def BOLD_END_def)

lemma specMarkerEffect_simps:
  "specMarkerEffect BOLD_START st = st\<lparr>isBold := True\<rparr>"
  "specMarkerEffect BOLD_END st = st\<lparr>isBold := False\<rparr>"
  "specMarkerEffect UNDERLINE_START st = st\<lparr>isUnderline := True\<rparr>"
  "specMarkerEffect UNDERLINE_END st = st\<lparr>isUnderline := False\<rparr>"
  "specMarkerEffect STRIKE_START st = st\<lparr>isStrike := True\<rparr>"
  "specMarkerEffect STRIKE_END st = st\<lparr>isStrike := False\<rparr>"
  "specMarkerEffect LTR_START st = st\<lparr>isLtr := True\<rparr>"
  "specMarkerEffect LTR_END st = st\<lparr>isLtr := False\<rparr>"
  by (simp_all add: specMarkerEffect_def BOLD_START_def BOLD_END_def UNDERLINE_START_def
      UNDERLINE_END_def STRIKE_START_def STRIKE_END_def LTR_START_def LTR_END_def)

lemma parse_single_marker:
  "isMarker m \<Longrightarrow> parseSegmentsWithState [m] st = ([], specMarkerEffect m st)"
  by (simp add: parse_refines)

lemma isMarker_numeral:
  "isMarker (numeral k) \<longleftrightarrow>
     numeral k \<in> {0xE000, 0xE001, 0xE004, 0xE005, 0xE006, 0xE007, 0xE008, 0xE009 :: jschar}"
  by (simp add: isMarker_iff BOLD_START_def BOLD_END_def UNDERLINE_START_def
      UNDERLINE_END_def STRIKE_START_def STRIKE_END_def LTR_START_def LTR_END_def)


lemma digit_cases:
  "isDigit c \<Longrightarrow> c \<in> {0x30, 0x31, 0x32, 0x33, 0x34, 0x35, 0x36, 0x37, 0x38, 0x39}"
proof -
  assume "isDigit c"
  then have "48 \<le> unat c" "unat c \<le> 57"
    by (simp_all add: isDigit_def word_le_nat_alt)
  then have "unat c \<in> {48, 49, 50, 51, 52, 53, 54, 55, 56, 57}" by simp arith
  moreover have "c = of_nat (unat c)" by simp
  ultimately have "c \<in> of_nat ` {48, 49, 50, 51, 52, 53, 54, 55, 56, 57}"
    by (metis imageI)
  then show ?thesis by simp
qed

lemma persianDigit_eq:
  "isDigit c \<Longrightarrow> persianDigits ! unat (c - 0x30) = 0x6F0 + (c - 0x30)"
  using digit_cases[of c] by (auto simp: persianDigits_def)

lemma toPersianDigits_eq:
  "toPersianDigits t = map (\<lambda>c. if 0x30 \<le> c \<and> c \<le> 0x39 then 0x6F0 + (c - 0x30) else c) t"
  unfolding toPersianDigits_def
  by (rule map_cong) (auto simp: persianDigit_eq isDigit_def)


section \<open>Facts about measurement and painting one word\<close>

lemma paintedTexts_append: "paintedTexts (a @ b) = paintedTexts a @ paintedTexts b"
  by (induction a rule: paintedTexts.induct) simp_all

lemma surface_ops [simp]:
  "ops (setFont d a b) = ops d"
  "ops (setLineWidth d w) = ops d"
  "ops (setDrawColor d r g bl) = ops d"
  "ops (setLineDashPattern d pat ph) = ops d"
  "ops (docLine d x1 y1 x2 y2) = ops d @ [Line x1 y1 x2 y2]"
  "ops (docText d t x y rtl) = ops d @ [Text t x y rtl (docFontName d) (docFontStyle d)]"
  "ops (addPage d) = ops d @ [AddPage]"
  by (simp_all add: setFont_def setLineWidth_def setDrawColor_def setLineDashPattern_def
      docLine_def docText_def addPage_def)

lemma surface_size [simp]:
  "docFontSize (setFont d a b) = docFontSize d"
  "docFontSize (setLineWidth d w) = docFontSize d"
  "docFontSize (setDrawColor d r g bl) = docFontSize d"
  "docFontSize (setLineDashPattern d pat ph) = docFontSize d"
  "docFontSize (docLine d x1 y1 x2 y2) = docFontSize d"
  "docFontSize (docText d t x y rtl) = docFontSize d"
  "docFontSize (addPage d) = docFontSize d"
  by (simp_all add: setFont_def setLineWidth_def setDrawColor_def setLineDashPattern_def
      docLine_def docText_def addPage_def)

lemma surface_font [simp]:
  "docFontName (setFont d a b) = a"
  "docFontStyle (setFont d a b) = b"
  "getFont (setFont d a b) = (a, b)"
  "getTextWidth M (setFont d a b) t = M a b (docFontSize d) t"
  "getFontSize d = docFontSize d"
  by (simp_all add: setFont_def getFont_def getTextWidth_def getFontSize_def)

lemma measureLoop_fst:
  "fst (measureLoop A M P segs w d) =
     foldl (nAdd A) w
       (map (\<lambda>g. M (fontName P) (weightOf g) (docFontSize d) (textForMeasure P g)) segs)"
  by (induction segs arbitrary: w d) (simp_all add: Let_def)

lemma measureLoop_doc:
  "setFont (snd (measureLoop A M P segs w d)) a b = setFont d a b"
  by (induction segs arbitrary: w d) (simp_all add: Let_def setFont_def)

lemma setFont_getFont: "setFont d (docFontName d) (docFontStyle d) = d"
  by (simp add: setFont_def)

lemma getWordWidth_eq:
  "getWordWidthWithState A M P d word st =
     (foldl (nAdd A) (nLit A 0)
        (map (\<lambda>g. M (fontName P) (weightOf g) (docFontSize d) (textForMeasure P g))
           (fst (parseSegmentsWithState word st))),
      snd (parseSegmentsWithState word st), d)"
  by (simp add: getWordWidthWithState_def Let_def case_prod_beta getFont_def
      measureLoop_fst measureLoop_doc setFont_getFont)

lemma drawDecorations_facts [simp]:
  "paintedTexts (ops (drawDecorations A P y fs prev g nxt x w d)) = paintedTexts (ops d)"
  "docFontSize (drawDecorations A P y fs prev g nxt x w d) = docFontSize d"
  by (simp_all add: drawDecorations_def Let_def paintedTexts_append)

lemma renderSegment_facts:
  assumes "segText g \<noteq> []"
  shows "fst (renderSegment A M P y fs prev g nxt x d) =
           nSub A x (M (fontName P) (weightOf g) (docFontSize d) (printableText P g))"
    and "paintedTexts (ops (snd (renderSegment A M P y fs prev g nxt x d))) =
           paintedTexts (ops d) @ [(printableText P g, fontName P, weightOf g)]"
    and "docFontSize (snd (renderSegment A M P y fs prev g nxt x d)) = docFontSize d"
  using assms by (simp_all add: renderSegment_def Let_def paintedTexts_append)

lemma renderSegments_facts:
  assumes "\<forall>g \<in> set segs. segText g \<noteq> []"
  shows "fst (renderSegments A M P y fs prev segs x d) =
           foldl (nSub A) x
             (map (\<lambda>g. M (fontName P) (weightOf g) (docFontSize d) (printableText P g)) segs)
         \<and> paintedTexts (ops (snd (renderSegments A M P y fs prev segs x d))) =
           paintedTexts (ops d) @ map (\<lambda>g. (printableText P g, fontName P, weightOf g)) segs
         \<and> docFontSize (snd (renderSegments A M P y fs prev segs x d)) = docFontSize d"
  using assms
proof (induction segs arbitrary: prev x d)
  case Nil
  then show ?case by simp
next
  case (Cons g rest)
  let ?nxt = "case rest of [] \<Rightarrow> None | n # _ \<Rightarrow> Some n"
  obtain x1 d1 where r: "renderSegment A M P y fs prev g ?nxt x d = (x1, d1)"
    by (cases "renderSegment A M P y fs prev g ?nxt x d")
  have g: "segText g \<noteq> []" using Cons.prems by simp
  have f: "x1 = nSub A x (M (fontName P) (weightOf g) (docFontSize d) (printableText P g))"
          "paintedTexts (ops d1) = paintedTexts (ops d) @ [(printableText P g, fontName P, weightOf g)]"
          "docFontSize d1 = docFontSize d"
    using renderSegment_facts[OF g, of A M P y fs prev ?nxt x d] r by simp_all
  have ih: "fst (renderSegments A M P y fs (Some g) rest x1 d1) =
           foldl (nSub A) x1
             (map (\<lambda>g. M (fontName P) (weightOf g) (docFontSize d1) (printableText P g)) rest)
         \<and> paintedTexts (ops (snd (renderSegments A M P y fs (Some g) rest x1 d1))) =
           paintedTexts (ops d1) @ map (\<lambda>g. (printableText P g, fontName P, weightOf g)) rest
         \<and> docFontSize (snd (renderSegments A M P y fs (Some g) rest x1 d1)) = docFontSize d1"
    using Cons.IH[of "Some g" x1 d1] Cons.prems by simp
  show ?case using ih f by (simp add: r)
qed

lemma textForMeasure_printable: "textForMeasure P g = printableText P g"
  by (simp add: textForMeasure_def printableText_def)

lemma renderWord_facts:
  "fst (renderWordWithState A M P d word x y st) =
     foldl (nSub A) x
       (map (\<lambda>g. M (fontName P) (weightOf g) (docFontSize d) (printableText P g))
          (fst (parseSegmentsWithState word st)))"
  "fst (snd (renderWordWithState A M P d word x y st)) = snd (parseSegmentsWithState word st)"
  "paintedTexts (ops (snd (snd (renderWordWithState A M P d word x y st)))) =
     paintedTexts (ops d) @ map (\<lambda>g. (printableText P g, fontName P, weightOf g))
        (fst (parseSegmentsWithState word st))"
  "docFontSize (snd (snd (renderWordWithState A M P d word x y st))) = docFontSize d"
proof -
  let ?segs = "fst (parseSegmentsWithState word st)"
  let ?d1 = "setLineWidth d (nLit A (15 / 100))"
  let ?r = "renderSegments A M P y (getFontSize d) None ?segs x ?d1"
  have ne: "\<forall>g \<in> set ?segs. segText g \<noteq> []" using parse_nonempty by blast
  note rs = renderSegments_facts[OF ne, of A M P y "getFontSize d" None x ?d1]
  have sz: "docFontSize ?d1 = docFontSize d" "ops ?d1 = ops d" by simp_all
  have u: "renderWordWithState A M P d word x y st =
             (fst ?r, snd (parseSegmentsWithState word st), setFont (snd ?r) (fontName P) (js ''normal''))"
    by (simp add: renderWordWithState_def Let_def case_prod_beta)
  show "fst (renderWordWithState A M P d word x y st) =
     foldl (nSub A) x
       (map (\<lambda>g. M (fontName P) (weightOf g) (docFontSize d) (printableText P g)) ?segs)"
    unfolding u using rs sz by simp
  show "fst (snd (renderWordWithState A M P d word x y st)) = snd (parseSegmentsWithState word st)"
    unfolding u by simp
  show "paintedTexts (ops (snd (snd (renderWordWithState A M P d word x y st)))) =
     paintedTexts (ops d) @ map (\<lambda>g. (printableText P g, fontName P, weightOf g)) ?segs"
    unfolding u using rs sz by simp
  show "docFontSize (snd (snd (renderWordWithState A M P d word x y st))) = docFontSize d"
    unfolding u using rs sz by simp
qed


section \<open>Facts about painting lines and the line breaker\<close>

lemma stateAfter_simps [simp]:
  "stateAfter st [] = st"
  "stateAfter st (w # ws) = stateAfter (snd (parseSegmentsWithState w st)) ws"
  "stateAfter st (ws @ vs) = stateAfter (stateAfter st ws) vs"
  by (simp_all add: stateAfter_def)

lemma paintedWord_eq:
  "paintedWord P st w =
     map (\<lambda>g. (printableText P g, fontName P, weightOf g)) (fst (parseSegmentsWithState w st))"
  by (simp add: paintedWord_def printableText_def toPersianDigits_eq weightOf_def cong: if_cong)

lemma sumWordWidths_eq:
  "sumWordWidths A M P ws acc st d =
     (foldl (nAdd A) acc (wordWidths A M P d st ws), stateAfter st ws, d)"
proof (induction ws arbitrary: acc st)
  case Nil
  show ?case by simp
next
  case (Cons w ws)
  have "sumWordWidths A M P (w # ws) acc st d =
          sumWordWidths A M P ws (nAdd A acc (fst (getWordWidthWithState A M P d w st)))
            (snd (parseSegmentsWithState w st)) d"
    by (simp add: getWordWidth_eq)
  then show ?case by (simp add: Cons.IH)
qed


lemma wordWidths_length [simp]: "length (wordWidths A M P d st ws) = length ws"
  by (induction ws arbitrary: st) simp_all

lemma wordWidths_append:
  "wordWidths A M P d st (ws @ vs) =
     wordWidths A M P d st ws @ wordWidths A M P d (stateAfter st ws) vs"
  by (induction ws arbitrary: st) simp_all

lemma paintedWords_append:
  "paintedWords P st (ws @ vs) = paintedWords P st ws @ paintedWords P (stateAfter st ws) vs"
  by (induction ws arbitrary: st) simp_all

lemma wordsLoop_step:
  "wordsLoop A M P y fs gap black (word # rest) x st d =
     (let r = renderWordWithState A M P d word x y st;
          x1 = fst r; st1 = fst (snd r); d1 = snd (snd r)
      in if rest \<noteq> [] then
           wordsLoop A M P y fs gap black rest (nSub A x1 gap) st1
             (let d2 = (if isUnderline st1
                        then docLine
                               (if black then setDrawColor d1 (nLit A 0) (nLit A 0) (nLit A 0)
                                else d1)
                               x1 (nAdd A y (nMul A fs (underlineOffsetRatio P)))
                               (nSub A x1 gap) (nAdd A y (nMul A fs (underlineOffsetRatio P)))
                        else d1)
              in if isStrike st1
                 then docLine
                        (if black then setDrawColor d2 (nLit A 0) (nLit A 0) (nLit A 0) else d2)
                        x1 (nSub A y (nMul A fs (strikeOffsetRatio P)))
                        (nSub A x1 gap) (nSub A y (nMul A fs (strikeOffsetRatio P)))
                 else d2)
         else wordsLoop A M P y fs gap black rest x1 st1 d1)"
  by (simp add: Let_def case_prod_beta)

lemma wordsLoop_facts:
  "fst (snd (wordsLoop A M P y fs gap black ws x st d)) = stateAfter st ws
   \<and> paintedTexts (ops (snd (snd (wordsLoop A M P y fs gap black ws x st d)))) =
       paintedTexts (ops d) @ paintedWords P st ws
   \<and> docFontSize (snd (snd (wordsLoop A M P y fs gap black ws x st d))) = docFontSize d"
proof (induction ws arbitrary: x st d)
  case Nil
  show ?case by simp
next
  case (Cons word rest)
  let ?r = "renderWordWithState A M P d word x y st"
  have r: "fst (snd ?r) = snd (parseSegmentsWithState word st)"
    "paintedTexts (ops (snd (snd ?r))) = paintedTexts (ops d) @ paintedWord P st word"
    "docFontSize (snd (snd ?r)) = docFontSize d"
    by (simp_all add: renderWord_facts paintedWord_eq)
  show ?case
  proof (cases "rest = []")
    case True
    then show ?thesis using r by (simp add: wordsLoop_step Let_def del: wordsLoop.simps(2))
  next
    case False
    show ?thesis
      unfolding wordsLoop_step Let_def using False r
      by (simp add: Cons.IH paintedTexts_append del: wordsLoop.simps(2))
  qed
qed


lemma renderRegularLine_unfold:
  "renderRegularLine A M P d ws x y st =
     snd (snd (wordsLoop A M P y (docFontSize d) (getTextWidth M d [SPACE_CHAR]) True ws
       (nSub A x
          (if align P = AlignRight then nLit A 0
           else if align P = AlignLeft
           then nSub A (maxWidth P)
                  (nAdd A (foldl (nAdd A) (nLit A 0) (wordWidths A M P d st ws))
                     (nMul A (nOfInt A (int (length ws) - 1)) (getTextWidth M d [SPACE_CHAR])))
           else if align P = AlignCenter
           then nDiv A (nSub A (maxWidth P)
                  (nAdd A (foldl (nAdd A) (nLit A 0) (wordWidths A M P d st ws))
                     (nMul A (nOfInt A (int (length ws) - 1)) (getTextWidth M d [SPACE_CHAR]))))
                  (nLit A 2)
           else nLit A 0))
       st d))"
  by (simp add: renderRegularLine_def Let_def case_prod_beta sumWordWidths_eq)

lemma renderJustifiedLine_unfold:
  "renderJustifiedLine A M P d ws x y st =
     (if length ws \<le> 1 then renderRegularLine A M P d ws x y st
      else snd (snd (wordsLoop A M P y (docFontSize d)
             (nAdd A (getTextWidth M d [SPACE_CHAR])
                (nDiv A (nSub A (nSub A (maxWidth P)
                                   (foldl (nAdd A) (nLit A 0) (wordWidths A M P d st ws)))
                           (nMul A (getTextWidth M d [SPACE_CHAR])
                              (nOfInt A (int (length ws) - 1))))
                        (nOfInt A (int (length ws) - 1))))
             False ws x st d)))"
  by (auto simp add: renderJustifiedLine_def justifiedLoop_def extraSpacePerGap_def Let_def
      case_prod_beta sumWordWidths_eq)

lemma renderLine_facts:
  "paintedTexts (ops (renderLine A M P d ws x y sj st)) = paintedTexts (ops d) @ paintedWords P st ws"
  "docFontSize (renderLine A M P d ws x y sj st) = docFontSize d"
  by (simp_all add: renderLine_def renderJustifiedLine_unfold renderRegularLine_unfold
      wordsLoop_facts)

lemma checkPageBreak_size:
  "\<forall>f. onPageBreak P = Some f \<longrightarrow> (\<forall>n d. docFontSize (snd (f n d)) = docFontSize d) \<Longrightarrow>
   docFontSize (doc (snd (checkPageBreak A P s y))) = docFontSize (doc s)"
  by (simp add: checkPageBreak_def Let_def case_prod_beta split: option.splits)

lemma closeLine_eq:
  "closeLine A M P startX sj v s =
     (nAdd A (fst (checkPageBreak A P s (lv_y v))) (lineHeight P),
      (snd (checkPageBreak A P s (lv_y v)))
        \<lparr>doc := renderLine A M P (doc (snd (checkPageBreak A P s (lv_y v)))) (lineWords v) startX
                  (fst (checkPageBreak A P s (lv_y v))) sj (lineStartingState v)\<rparr>,
      \<lparr>ev_words = lineWords v, ev_startX = startX, ev_y = fst (checkPageBreak A P s (lv_y v)),
       ev_shouldJustify = sj, ev_startState = lineStartingState v,
       ev_lineWidth = lineWidth v, ev_yBefore = lv_y v, ev_stateBefore = s,
       ev_checked = snd (checkPageBreak A P s (lv_y v)),
       ev_after = renderLine A M P (doc (snd (checkPageBreak A P s (lv_y v)))) (lineWords v) startX
                    (fst (checkPageBreak A P s (lv_y v))) sj (lineStartingState v)\<rparr>)"
  by (simp add: closeLine_def Let_def case_prod_beta)

lemma renderWordsLoop_step:
  "renderWordsLoop A M P startX j sw (word # rest) v s evs =
     (let ww = fst (getWordWidthWithState A M P (doc s) word (lv_state v));
          ns = snd (parseSegmentsWithState word (lv_state v));
          spaceToUse = (if lineWords v \<noteq> [] then sw else nLit A 0)
      in if nGt A (nAdd A (nAdd A (lineWidth v) ww) spaceToUse) (maxWidth P) then
           renderWordsLoop A M P startX j sw rest
             \<lparr>lv_y = fst (closeLine A M P startX (j \<and> 1 < length (lineWords v)) v s),
              lineWords = [word], lineWidth = ww, lv_state = ns,
              lineStartingState = lv_state v\<rparr>
             (fst (snd (closeLine A M P startX (j \<and> 1 < length (lineWords v)) v s)))
             (evs @ [snd (snd (closeLine A M P startX (j \<and> 1 < length (lineWords v)) v s))])
         else renderWordsLoop A M P startX j sw rest
                (v\<lparr>lineWords := lineWords v @ [word],
                   lineWidth := nAdd A (lineWidth v) (nAdd A ww spaceToUse),
                   lv_state := ns\<rparr>) s evs)"
  by (simp add: getWordWidth_eq Let_def case_prod_beta)

lemma renderWordsLoop_invariant:
  assumes init: "I words v s evs"
    and fit: "\<And>word rest v s evs.
        I (word # rest) v s evs \<Longrightarrow>
        \<not> nGt A (nAdd A (nAdd A (lineWidth v)
                  (fst (getWordWidthWithState A M P (doc s) word (lv_state v))))
                  (if lineWords v \<noteq> [] then sw else nLit A 0)) (maxWidth P) \<Longrightarrow>
        I rest (v\<lparr>lineWords := lineWords v @ [word],
                  lineWidth := nAdd A (lineWidth v)
                     (nAdd A (fst (getWordWidthWithState A M P (doc s) word (lv_state v)))
                        (if lineWords v \<noteq> [] then sw else nLit A 0)),
                  lv_state := snd (parseSegmentsWithState word (lv_state v))\<rparr>) s evs"
    and brk: "\<And>word rest v s evs.
        I (word # rest) v s evs \<Longrightarrow>
        nGt A (nAdd A (nAdd A (lineWidth v)
                  (fst (getWordWidthWithState A M P (doc s) word (lv_state v))))
                  (if lineWords v \<noteq> [] then sw else nLit A 0)) (maxWidth P) \<Longrightarrow>
        I rest \<lparr>lv_y = fst (closeLine A M P startX (j \<and> 1 < length (lineWords v)) v s),
                lineWords = [word],
                lineWidth = fst (getWordWidthWithState A M P (doc s) word (lv_state v)),
                lv_state = snd (parseSegmentsWithState word (lv_state v)),
                lineStartingState = lv_state v\<rparr>
          (fst (snd (closeLine A M P startX (j \<and> 1 < length (lineWords v)) v s)))
          (evs @ [snd (snd (closeLine A M P startX (j \<and> 1 < length (lineWords v)) v s))])"
  shows "I [] (fst (renderWordsLoop A M P startX j sw words v s evs))
              (fst (snd (renderWordsLoop A M P startX j sw words v s evs)))
              (snd (snd (renderWordsLoop A M P startX j sw words v s evs)))"
  using init
proof (induction words arbitrary: v s evs)
  case Nil
  then show ?case by simp
next
  case (Cons word rest)
  let ?c = "nGt A (nAdd A (nAdd A (lineWidth v)
                  (fst (getWordWidthWithState A M P (doc s) word (lv_state v))))
                  (if lineWords v \<noteq> [] then sw else nLit A 0)) (maxWidth P)"
  show ?case
  proof (cases ?c)
    case True
    from brk[OF Cons.prems True] show ?thesis
      using True Cons.IH by (simp add: renderWordsLoop_step Let_def del: renderWordsLoop.simps)
  next
    case False
    from fit[OF Cons.prems False] show ?thesis
      using False Cons.IH by (simp add: renderWordsLoop_step Let_def del: renderWordsLoop.simps)
  qed
qed

lemma renderWords_unfold:
  "renderWords A M P s words startX startY j =
     (let r = renderWordsLoop A M P startX j (getTextWidth M (doc s) [SPACE_CHAR]) words
                \<lparr>lv_y = startY, lineWords = [], lineWidth = nLit A 0,
                 lv_state = initialStyle, lineStartingState = initialStyle\<rparr> s [];
          v = fst r; s1 = fst (snd r); evs = snd (snd r)
      in if lineWords v \<noteq> [] then
           (fst (closeLine A M P startX False v s1),
            fst (snd (closeLine A M P startX False v s1)),
            evs @ [snd (snd (closeLine A M P startX False v s1))])
         else (lv_y v, s1, evs))"
  by (simp add: renderWords_def Let_def case_prod_beta)


lemma threaded_snoc:
  "threaded s0 evs s \<Longrightarrow> ev_stateBefore e = s \<Longrightarrow>
   threaded s0 (evs @ [e]) ((ev_checked e)\<lparr>doc := ev_after e\<rparr>)"
  by (induction evs arbitrary: s0) auto

lemma closeLine_event:
  "ev_words (snd (snd (closeLine A M P startX sj v s))) = lineWords v"
  "ev_startX (snd (snd (closeLine A M P startX sj v s))) = startX"
  "ev_shouldJustify (snd (snd (closeLine A M P startX sj v s))) = sj"
  "ev_startState (snd (snd (closeLine A M P startX sj v s))) = lineStartingState v"
  "ev_lineWidth (snd (snd (closeLine A M P startX sj v s))) = lineWidth v"
  "ev_yBefore (snd (snd (closeLine A M P startX sj v s))) = lv_y v"
  "ev_stateBefore (snd (snd (closeLine A M P startX sj v s))) = s"
  "(ev_y (snd (snd (closeLine A M P startX sj v s))),
    ev_checked (snd (snd (closeLine A M P startX sj v s)))) = checkPageBreak A P s (lv_y v)"
  "ev_after (snd (snd (closeLine A M P startX sj v s))) =
     renderLine A M P (doc (snd (checkPageBreak A P s (lv_y v)))) (lineWords v) startX
       (fst (checkPageBreak A P s (lv_y v))) sj (lineStartingState v)"
  "fst (snd (closeLine A M P startX sj v s)) =
     (ev_checked (snd (snd (closeLine A M P startX sj v s))))
       \<lparr>doc := ev_after (snd (snd (closeLine A M P startX sj v s)))\<rparr>"
  "fst (closeLine A M P startX sj v s) =
     nAdd A (ev_y (snd (snd (closeLine A M P startX sj v s)))) (lineHeight P)"
  by (simp_all add: closeLine_eq)

lemma closeLine_eventOk:
  "eventOk A M P startX (snd (snd (closeLine A M P startX sj v s)))"
  by (simp add: eventOk_def closeLine_eq)

lemma loop_events:
  "threaded s evs0 s0 \<Longrightarrow>
   \<forall>e \<in> set evs0. eventOk A M P startX e \<and> ev_shouldJustify e = (j \<and> 1 < length (ev_words e)) \<Longrightarrow>
   threaded s (snd (snd (renderWordsLoop A M P startX j sw words v s0 evs0)))
              (fst (snd (renderWordsLoop A M P startX j sw words v s0 evs0)))
   \<and> (\<forall>e \<in> set (snd (snd (renderWordsLoop A M P startX j sw words v s0 evs0))).
         eventOk A M P startX e \<and> ev_shouldJustify e = (j \<and> 1 < length (ev_words e)))"
proof -
  let ?I = "\<lambda>(rem :: jsstring list) (v :: 'a line_vars) (s' :: 'a printer_state)
              (evs :: 'a line_event list).
     threaded s evs s'
     \<and> (\<forall>e \<in> set evs. eventOk A M P startX e \<and> ev_shouldJustify e = (j \<and> 1 < length (ev_words e)))"
  assume a: "threaded s evs0 s0"
    "\<forall>e \<in> set evs0. eventOk A M P startX e \<and> ev_shouldJustify e = (j \<and> 1 < length (ev_words e))"
  have "?I [] (fst (renderWordsLoop A M P startX j sw words v s0 evs0))
              (fst (snd (renderWordsLoop A M P startX j sw words v s0 evs0)))
              (snd (snd (renderWordsLoop A M P startX j sw words v s0 evs0)))"
  proof (rule renderWordsLoop_invariant[where I = ?I])
    show "?I words v s0 evs0" using a by simp
  next
    fix word :: jsstring and rest :: "jsstring list" and v :: "'a line_vars"
      and s' :: "'a printer_state" and evs :: "'a line_event list"
    assume "?I (word # rest) v s' evs"
    then show "?I rest (v\<lparr>lineWords := lineWords v @ [word],
                  lineWidth := nAdd A (lineWidth v)
                     (nAdd A (fst (getWordWidthWithState A M P (doc s') word (lv_state v)))
                        (if lineWords v \<noteq> [] then sw else nLit A 0)),
                  lv_state := snd (parseSegmentsWithState word (lv_state v))\<rparr>) s' evs" .
  next
    fix word :: jsstring and rest :: "jsstring list" and v :: "'a line_vars"
      and s' :: "'a printer_state" and evs :: "'a line_event list"
    let ?cl = "closeLine A M P startX (j \<and> 1 < length (lineWords v)) v s'"
    assume i: "?I (word # rest) v s' evs"
    have t: "threaded s (evs @ [snd (snd ?cl)]) (fst (snd ?cl))"
      using threaded_snoc[of s evs s' "snd (snd ?cl)"] i
      by (simp add: closeLine_event(7) closeLine_event(10)[symmetric])
    have e: "eventOk A M P startX (snd (snd ?cl))
             \<and> ev_shouldJustify (snd (snd ?cl)) = (j \<and> 1 < length (ev_words (snd (snd ?cl))))"
      by (simp add: closeLine_eventOk closeLine_event)
    show "?I rest \<lparr>lv_y = fst ?cl, lineWords = [word],
                lineWidth = fst (getWordWidthWithState A M P (doc s') word (lv_state v)),
                lv_state = snd (parseSegmentsWithState word (lv_state v)),
                lineStartingState = lv_state v\<rparr>
          (fst (snd ?cl)) (evs @ [snd (snd ?cl)])"
      using t e i by auto
  qed
  then show ?thesis .
qed


lemma chainOk_snoc:
  "chainOk evs \<Longrightarrow> ev_startState e = stateAfter initialStyle (concat (map ev_words evs)) \<Longrightarrow>
   chainOk (evs @ [e])"
  unfolding chainOk_def
proof (intro allI impI)
  fix i
  assume c: "\<forall>i<length evs. ev_startState (evs ! i) = stateAfter initialStyle (concat (map ev_words (take i evs)))"
    and e: "ev_startState e = stateAfter initialStyle (concat (map ev_words evs))"
    and i: "i < length (evs @ [e])"
  show "ev_startState ((evs @ [e]) ! i) =
          stateAfter initialStyle (concat (map ev_words (take i (evs @ [e]))))"
  proof (cases "i < length evs")
    case True
    then show ?thesis using c by (simp add: nth_append)
  next
    case False
    then have "i = length evs" using i by simp
    then show ?thesis using e by simp
  qed
qed

lemma loop_chain:
  assumes "lv_state v0 = stateAfter (lineStartingState v0) (lineWords v0)"
    and "lineStartingState v0 = stateAfter initialStyle (concat (map ev_words evs0))"
    and "chainOk evs0"
  shows "chainOk (snd (snd (renderWordsLoop A M P startX j sw words v0 s0 evs0)))
   \<and> lineStartingState (fst (renderWordsLoop A M P startX j sw words v0 s0 evs0)) =
       stateAfter initialStyle
         (concat (map ev_words (snd (snd (renderWordsLoop A M P startX j sw words v0 s0 evs0)))))
   \<and> concat (map ev_words (snd (snd (renderWordsLoop A M P startX j sw words v0 s0 evs0))))
       @ lineWords (fst (renderWordsLoop A M P startX j sw words v0 s0 evs0))
       = concat (map ev_words evs0) @ lineWords v0 @ words"
proof -
  let ?W = "concat (map ev_words evs0) @ lineWords v0 @ words"
  let ?I = "\<lambda>(rem :: jsstring list) (v :: 'a line_vars) (s' :: 'a printer_state)
              (evs :: 'a line_event list).
     lv_state v = stateAfter (lineStartingState v) (lineWords v)
     \<and> lineStartingState v = stateAfter initialStyle (concat (map ev_words evs))
     \<and> chainOk evs
     \<and> concat (map ev_words evs) @ lineWords v @ rem = ?W"
  have "?I [] (fst (renderWordsLoop A M P startX j sw words v0 s0 evs0))
              (fst (snd (renderWordsLoop A M P startX j sw words v0 s0 evs0)))
              (snd (snd (renderWordsLoop A M P startX j sw words v0 s0 evs0)))"
  proof (rule renderWordsLoop_invariant[where I = ?I])
    show "?I words v0 s0 evs0" using assms by simp
  next
    fix word :: jsstring and rest :: "jsstring list" and v :: "'a line_vars"
      and s' :: "'a printer_state" and evs :: "'a line_event list"
    assume "?I (word # rest) v s' evs"
    then show "?I rest (v\<lparr>lineWords := lineWords v @ [word],
                  lineWidth := nAdd A (lineWidth v)
                     (nAdd A (fst (getWordWidthWithState A M P (doc s') word (lv_state v)))
                        (if lineWords v \<noteq> [] then sw else nLit A 0)),
                  lv_state := snd (parseSegmentsWithState word (lv_state v))\<rparr>) s' evs"
      by simp
  next
    fix word :: jsstring and rest :: "jsstring list" and v :: "'a line_vars"
      and s' :: "'a printer_state" and evs :: "'a line_event list"
    let ?cl = "closeLine A M P startX (j \<and> 1 < length (lineWords v)) v s'"
    assume i: "?I (word # rest) v s' evs"
    have c: "chainOk (evs @ [snd (snd ?cl)])"
      using i by (intro chainOk_snoc) (simp_all add: closeLine_event)
    show "?I rest \<lparr>lv_y = fst ?cl, lineWords = [word],
                lineWidth = fst (getWordWidthWithState A M P (doc s') word (lv_state v)),
                lv_state = snd (parseSegmentsWithState word (lv_state v)),
                lineStartingState = lv_state v\<rparr>
          (fst (snd ?cl)) (evs @ [snd (snd ?cl)])"
      using c i by (simp add: closeLine_event)
  qed
  then show ?thesis by simp
qed

lemma loop_lineWords_nonempty:
  "words \<noteq> [] \<or> lineWords v \<noteq> [] \<Longrightarrow>
   lineWords (fst (renderWordsLoop A M P startX j sw words v s evs)) \<noteq> []"
proof (induction words arbitrary: v s evs)
  case Nil
  then show ?case by simp
next
  case (Cons word rest)
  show ?case
    by (simp add: renderWordsLoop_step Let_def Cons.IH del: renderWordsLoop.simps)
qed

lemma loop_empty:
  "renderWordsLoop A M P startX j sw [] v s evs = (v, s, evs)"
  by simp


lemma renderWords_events:
  "threaded s (snd (snd (renderWords A M P s words startX startY j)))
              (fst (snd (renderWords A M P s words startX startY j)))
   \<and> (\<forall>i < length (snd (snd (renderWords A M P s words startX startY j))).
         eventOk A M P startX (snd (snd (renderWords A M P s words startX startY j)) ! i)
         \<and> ev_shouldJustify (snd (snd (renderWords A M P s words startX startY j)) ! i) =
             (j \<and> 1 < length (ev_words (snd (snd (renderWords A M P s words startX startY j)) ! i))
              \<and> Suc i < length (snd (snd (renderWords A M P s words startX startY j)))))"
proof -
  let ?v0 = "\<lparr>lv_y = startY, lineWords = [], lineWidth = nLit A 0,
                 lv_state = initialStyle, lineStartingState = initialStyle\<rparr>"
  let ?r = "renderWordsLoop A M P startX j (getTextWidth M (doc s) [SPACE_CHAR]) words ?v0 s []"
  let ?cl = "closeLine A M P startX False (fst ?r) (fst (snd ?r))"
  have l: "threaded s (snd (snd ?r)) (fst (snd ?r))"
    "\<forall>e \<in> set (snd (snd ?r)).
         eventOk A M P startX e \<and> ev_shouldJustify e = (j \<and> 1 < length (ev_words e))"
    using loop_events[of s "[]" s A M P startX j "getTextWidth M (doc s) [SPACE_CHAR]" words ?v0]
    by simp_all
  show ?thesis
  proof (cases "lineWords (fst ?r) = []")
    case True
    then have w: "words = []" using loop_lineWords_nonempty[of words ?v0] by blast
    show ?thesis unfolding renderWords_unfold w by simp
  next
    case False
    have u: "renderWords A M P s words startX startY j =
               (fst ?cl, fst (snd ?cl), snd (snd ?r) @ [snd (snd ?cl)])"
      using False by (simp add: renderWords_unfold Let_def)
    have t: "threaded s (snd (snd ?r) @ [snd (snd ?cl)]) (fst (snd ?cl))"
      using threaded_snoc[OF l(1), of "snd (snd ?cl)"]
      by (simp add: closeLine_event(7) closeLine_event(10)[symmetric])
    have e: "\<forall>i < length (snd (snd ?r) @ [snd (snd ?cl)]).
         eventOk A M P startX ((snd (snd ?r) @ [snd (snd ?cl)]) ! i)
         \<and> ev_shouldJustify ((snd (snd ?r) @ [snd (snd ?cl)]) ! i) =
             (j \<and> 1 < length (ev_words ((snd (snd ?r) @ [snd (snd ?cl)]) ! i))
              \<and> Suc i < length (snd (snd ?r) @ [snd (snd ?cl)]))"
    proof (intro allI impI)
      fix i
      assume i: "i < length (snd (snd ?r) @ [snd (snd ?cl)])"
      show "eventOk A M P startX ((snd (snd ?r) @ [snd (snd ?cl)]) ! i)
         \<and> ev_shouldJustify ((snd (snd ?r) @ [snd (snd ?cl)]) ! i) =
             (j \<and> 1 < length (ev_words ((snd (snd ?r) @ [snd (snd ?cl)]) ! i))
              \<and> Suc i < length (snd (snd ?r) @ [snd (snd ?cl)]))"
      proof (cases "i < length (snd (snd ?r))")
        case True
        then have "snd (snd ?r) ! i \<in> set (snd (snd ?r))" by simp
        then show ?thesis using l(2) True by (simp add: nth_append)
      next
        case False
        then have "i = length (snd (snd ?r))" using i by simp
        then show ?thesis by (simp add: closeLine_eventOk closeLine_event)
      qed
    qed
    show ?thesis unfolding u using t e by simp
  qed
qed

lemma renderWords_chain:
  "chainOk (snd (snd (renderWords A M P s words startX startY j)))
   \<and> concat (map ev_words (snd (snd (renderWords A M P s words startX startY j)))) = words
   \<and> (words \<noteq> [] \<longrightarrow> snd (snd (renderWords A M P s words startX startY j)) \<noteq> [])
   \<and> (words = [] \<longrightarrow> renderWords A M P s words startX startY j = (startY, s, []))"
proof -
  let ?v0 = "\<lparr>lv_y = startY, lineWords = [], lineWidth = nLit A 0,
                 lv_state = initialStyle, lineStartingState = initialStyle\<rparr>"
  let ?r = "renderWordsLoop A M P startX j (getTextWidth M (doc s) [SPACE_CHAR]) words ?v0 s []"
  let ?cl = "closeLine A M P startX False (fst ?r) (fst (snd ?r))"
  have l: "chainOk (snd (snd ?r))"
    "lineStartingState (fst ?r) = stateAfter initialStyle (concat (map ev_words (snd (snd ?r))))"
    "concat (map ev_words (snd (snd ?r))) @ lineWords (fst ?r) = words"
    using loop_chain[of ?v0 "[]" A M P startX j "getTextWidth M (doc s) [SPACE_CHAR]" words s]
    by (simp_all add: chainOk_def)
  have e: "words = [] \<longrightarrow> renderWords A M P s words startX startY j = (startY, s, [])"
    by (simp add: renderWords_unfold)
  show ?thesis
  proof (cases "lineWords (fst ?r) = []")
    case True
    then have w: "words = []" using loop_lineWords_nonempty[of words ?v0] by blast
    show ?thesis unfolding renderWords_unfold w by (simp add: chainOk_def)
  next
    case False
    have u: "snd (snd (renderWords A M P s words startX startY j)) =
               snd (snd ?r) @ [snd (snd ?cl)]"
      using False by (simp add: renderWords_unfold Let_def)
    have c: "chainOk (snd (snd ?r) @ [snd (snd ?cl)])"
      using l by (intro chainOk_snoc) (simp_all add: closeLine_event)
    show ?thesis unfolding u using c l(3) e by (simp add: closeLine_event)
  qed
qed


lemma threaded_last:
  "threaded s evs s' \<Longrightarrow> evs \<noteq> [] \<Longrightarrow>
   s' = (ev_checked (last evs))\<lparr>doc := ev_after (last evs)\<rparr>"
  by (induction evs arbitrary: s) (auto split: if_splits)

lemma exact_ops [simp]:
  "nAdd exact a b = a + b" "nSub exact a b = a - b" "nMul exact a b = a * b"
  "nDiv exact a b = a / b" "nGt exact a b = (a > b)" "nLit exact q = real_of_rat q"
  "nOfInt exact k = real_of_int k"
  by (simp_all add: exact_def nOfInt_def)

lemma examplePrinter_fields [simp]:
  "maxWidth examplePrinter = 10" "lineHeight examplePrinter = 10"
  "align examplePrinter = AlignRight" "justify examplePrinter = True"
  "marginTop examplePrinter = 10" "marginBottom examplePrinter = 10"
  "footerHeight examplePrinter = 10" "headerHeight examplePrinter = 0"
  "printerPageHeight examplePrinter = 100" "onPageBreak examplePrinter = None"
  "fontName examplePrinter = js ''Vazir''" "convertDigitsToPersian examplePrinter = True"
  "defaultStartX examplePrinter = 200"
  by (simp_all add: examplePrinter_def constructor_def exampleConfig_def exampleDoc_def orElse_def)

lemma exampleRun_values:
  "fst exampleRun = 40"
  "map ev_words (snd (snd exampleRun)) = [[js ''aaaa'', js ''bbbb''], [js ''cc'']]"
  "map ev_y (snd (snd exampleRun)) = [20, 30]"
  "ops (doc (fst (snd exampleRun))) =
     [Text (js ''aaaa'') 200 20 False (js ''Vazir'') (js ''normal''),
      Text (js ''bbbb'') 194 20 False (js ''Vazir'') (js ''normal''),
      Text (js ''cc'') 200 30 False (js ''Vazir'') (js ''normal'')]"
  by (code_simp, code_simp, code_simp, code_simp)

lemma js_plain:
  "\<forall>c \<in> set (js ''ab''). c \<notin> set MARKERS" "\<forall>c \<in> set (js ''c''). c \<notin> set MARKERS"
  "js ''ab'' \<noteq> []" "js ''c'' \<noteq> []" "BOLD_START \<in> set MARKERS"
  by (simp_all add: js_def MARKERS_def BOLD_START_def BOLD_END_def UNDERLINE_START_def
      UNDERLINE_END_def STRIKE_START_def STRIKE_END_def LTR_START_def LTR_END_def)

subsection \<open>The cursor of a line under exact arithmetic, and what a line paints first\<close>













section \<open>Claims about segmentation, measurement and painting one word\<close>

text \<open>
  C7. Segmentation splits the word on the eight marker sentinels. The source function
  (split, then the switch loop) computes what the one-pass reading \<open>specSegments\<close> of the
  specification computes. A marker-free, non-empty word is one segment whose four flags are
  those of the incoming vector; a marker-free run before a marker is such a segment (no
  segment when the run is empty) and the rest of the word is segmented under the vector
  the marker leaves. The segments carry, in order, exactly the non-marker characters of
  the word, and none is empty. A word that is one marker yields no segment and sets
  (START) or clears (END) exactly that marker's flag, with no nesting depth: two
  BOLD_START followed by one BOLD_END leave bold off. The result is a function of the word
  and the incoming vector alone: the model function has no other argument and no state.
\<close>

theorem C7_segmentation:
  "parseSegmentsWithState word st = specSegments word [] st
   \<and> ((\<forall>c \<in> set t. c \<notin> set MARKERS) \<and> t \<noteq> [] \<longrightarrow>
        parseSegmentsWithState t st =
          ([\<lparr>isBold = isBold st, isUnderline = isUnderline st, isStrike = isStrike st,
             isLtr = isLtr st, segText = t\<rparr>], st))
   \<and> ((\<forall>c \<in> set t. c \<notin> set MARKERS) \<and> m \<in> set MARKERS \<longrightarrow>
        parseSegmentsWithState (t @ m # rest) st =
          ((if t = [] then []
            else [\<lparr>isBold = isBold st, isUnderline = isUnderline st, isStrike = isStrike st,
                   isLtr = isLtr st, segText = t\<rparr>])
             @ fst (parseSegmentsWithState rest (snd (parseSegmentsWithState [m] st))),
           snd (parseSegmentsWithState rest (snd (parseSegmentsWithState [m] st)))))
   \<and> concat (map segText (fst (parseSegmentsWithState word st)))
        = filter (\<lambda>c. c \<notin> set MARKERS) word
   \<and> list_all (\<lambda>g. segText g \<noteq> []) (fst (parseSegmentsWithState word st))
   \<and> parseSegmentsWithState [BOLD_START] st = ([], st\<lparr>isBold := True\<rparr>)
   \<and> parseSegmentsWithState [BOLD_END] st = ([], st\<lparr>isBold := False\<rparr>)
   \<and> parseSegmentsWithState [UNDERLINE_START] st = ([], st\<lparr>isUnderline := True\<rparr>)
   \<and> parseSegmentsWithState [UNDERLINE_END] st = ([], st\<lparr>isUnderline := False\<rparr>)
   \<and> parseSegmentsWithState [STRIKE_START] st = ([], st\<lparr>isStrike := True\<rparr>)
   \<and> parseSegmentsWithState [STRIKE_END] st = ([], st\<lparr>isStrike := False\<rparr>)
   \<and> parseSegmentsWithState [LTR_START] st = ([], st\<lparr>isLtr := True\<rparr>)
   \<and> parseSegmentsWithState [LTR_END] st = ([], st\<lparr>isLtr := False\<rparr>)
   \<and> parseSegmentsWithState [BOLD_START, BOLD_START, BOLD_END] st = ([], st\<lparr>isBold := False\<rparr>)"
proof -
  have p: "(\<forall>c \<in> set t. c \<notin> set MARKERS) \<and> t \<noteq> [] \<longrightarrow>
        parseSegmentsWithState t st =
          ([\<lparr>isBold = isBold st, isUnderline = isUnderline st, isStrike = isStrike st,
             isLtr = isLtr st, segText = t\<rparr>], st)"
    using specSegments_plain[of t "[]" st]
    by (simp add: parse_refines isMarker_def snapshot_eq)
  have q: "(\<forall>c \<in> set t. c \<notin> set MARKERS) \<and> m \<in> set MARKERS \<longrightarrow>
        parseSegmentsWithState (t @ m # rest) st =
          ((if t = [] then []
            else [\<lparr>isBold = isBold st, isUnderline = isUnderline st, isStrike = isStrike st,
                   isLtr = isLtr st, segText = t\<rparr>])
             @ fst (parseSegmentsWithState rest (snd (parseSegmentsWithState [m] st))),
           snd (parseSegmentsWithState rest (snd (parseSegmentsWithState [m] st))))"
    using specSegments_split[of t m rest "[]" st]
    by (simp add: parse_refines isMarker_def snapshot_eq del: specSegments.simps)
       (simp add: isMarker_def)
  have a: "list_all (\<lambda>g. segText g \<noteq> []) (fst (parseSegmentsWithState word st))"
    using parse_nonempty[of _ word st] by (simp add: list_all_iff)
  have b: "concat (map segText (fst (parseSegmentsWithState word st)))
             = filter (\<lambda>c. c \<notin> set MARKERS) word"
    using specSegments_concat[of word "[]" st]
    by (simp add: parse_refines stripMarkers_def isMarker_def)
  have c: "parseSegmentsWithState [BOLD_START, BOLD_START, BOLD_END] st = ([], st\<lparr>isBold := False\<rparr>)"
    by (simp add: parse_refines marker_values specMarkerEffect_simps)
  have m: "parseSegmentsWithState [BOLD_START] st = ([], st\<lparr>isBold := True\<rparr>)"
      "parseSegmentsWithState [BOLD_END] st = ([], st\<lparr>isBold := False\<rparr>)"
      "parseSegmentsWithState [UNDERLINE_START] st = ([], st\<lparr>isUnderline := True\<rparr>)"
      "parseSegmentsWithState [UNDERLINE_END] st = ([], st\<lparr>isUnderline := False\<rparr>)"
      "parseSegmentsWithState [STRIKE_START] st = ([], st\<lparr>isStrike := True\<rparr>)"
      "parseSegmentsWithState [STRIKE_END] st = ([], st\<lparr>isStrike := False\<rparr>)"
      "parseSegmentsWithState [LTR_START] st = ([], st\<lparr>isLtr := True\<rparr>)"
      "parseSegmentsWithState [LTR_END] st = ([], st\<lparr>isLtr := False\<rparr>)"
    by (simp_all only: parse_single_marker marker_values specMarkerEffect_simps)
  show ?thesis
    by (intro conjI) (rule parse_refines p q b a m c)+
qed


theorem C7_segmentation_witness:
  "parseSegmentsWithState (js ''ab'' @ BOLD_START # js ''c'') (initialStyle\<lparr>isLtr := True\<rparr>) =
     ([\<lparr>isBold = False, isUnderline = False, isStrike = False, isLtr = True, segText = js ''ab''\<rparr>,
       \<lparr>isBold = True, isUnderline = False, isStrike = False, isLtr = True, segText = js ''c''\<rparr>],
      \<lparr>isBold = True, isUnderline = False, isStrike = False, isLtr = True\<rparr>)"
proof -
  let ?st = "initialStyle\<lparr>isLtr := True\<rparr>"
  note a = C7_segmentation[where t = "js ''ab''" and m = BOLD_START and rest = "js ''c''"
             and st = ?st and word = "[]"]
  note b = C7_segmentation[where t = "js ''c''" and m = BOLD_START and rest = "[]"
             and st = "?st\<lparr>isBold := True\<rparr>" and word = "[]"]
  have m: "parseSegmentsWithState [BOLD_START] ?st = ([], ?st\<lparr>isBold := True\<rparr>)"
    using a by simp
  have c: "parseSegmentsWithState (js ''c'') (?st\<lparr>isBold := True\<rparr>) =
             ([\<lparr>isBold = True, isUnderline = False, isStrike = False, isLtr = True,
                segText = js ''c''\<rparr>], ?st\<lparr>isBold := True\<rparr>)"
    using b js_plain by (simp add: initialStyle_def)
  have "parseSegmentsWithState (js ''ab'' @ BOLD_START # js ''c'') ?st =
          ([\<lparr>isBold = isBold ?st, isUnderline = isUnderline ?st, isStrike = isStrike ?st,
                   isLtr = isLtr ?st, segText = js ''ab''\<rparr>]
             @ fst (parseSegmentsWithState (js ''c'') (snd (parseSegmentsWithState [BOLD_START] ?st))),
           snd (parseSegmentsWithState (js ''c'') (snd (parseSegmentsWithState [BOLD_START] ?st))))"
    using a js_plain by simp
  then show ?thesis unfolding m using c by (simp add: initialStyle_def)
qed


text \<open>
  C9. Measuring a word leaves the drawing surface as it was: the font name and font style
  are restored to their values before the call, and no other part of the surface is
  touched. This holds in every arithmetic.
\<close>

theorem C9_measurement_restores_font:
  "getFont (snd (snd (getWordWidthWithState A M P d word st))) = getFont d
   \<and> snd (snd (getWordWidthWithState A M P d word st)) = d"
  by (simp add: getWordWidth_eq)

text \<open>
  C1. For every word, incoming style vector and arithmetic. The measurement sums, from 0
  and in segment order, the widths the surface reports in the printer's font (bold or
  normal as the segment says) for the segment texts, digit-localized (ASCII digit \<open>c\<close> to
  U+06F0 + (c - U+0030)) exactly when digit conversion is on and the segment is not forced
  left-to-right. The texts the renderer paints for the word are these same texts, in the
  same fonts, and nothing painted before is changed. So the measured width is the sum, in
  the same order, of the widths of the painted texts, and these widths are what the
  renderer subtracts from its cursor, one after the other. Both passes hand on the same
  style vector.
\<close>

theorem C1_measure_paint_consistent:
  "(let (width, st1, d1) = getWordWidthWithState A M P d word st;
        (x', st2, d2) = renderWordWithState A M P d word x y st;
        segs = fst (parseSegmentsWithState word st);
        localized = (\<lambda>g. if convertDigitsToPersian P \<and> \<not> isLtr g
                          then map (\<lambda>c. if 0x30 \<le> c \<and> c \<le> 0x39 then 0x6F0 + (c - 0x30) else c)
                                 (segText g)
                          else segText g);
        weight = (\<lambda>g. if isBold g then js ''bold'' else js ''normal'');
        painted = drop (length (paintedTexts (ops d))) (paintedTexts (ops d2));
        advances = map (\<lambda>(t, name, style). M name style (docFontSize d) t) painted
    in width = foldl (nAdd A) (nLit A 0)
                 (map (\<lambda>g. M (fontName P) (weight g) (docFontSize d) (localized g)) segs)
       \<and> painted = map (\<lambda>g. (localized g, fontName P, weight g)) segs
       \<and> take (length (paintedTexts (ops d))) (paintedTexts (ops d2)) = paintedTexts (ops d)
       \<and> width = foldl (nAdd A) (nLit A 0) advances
       \<and> x' = foldl (nSub A) x advances
       \<and> st2 = st1)"
proof -
  let ?segs = "fst (parseSegmentsWithState word st)"
  let ?r = "renderWordWithState A M P d word x y st"
  let ?loc = "\<lambda>g. if convertDigitsToPersian P \<and> \<not> isLtr g
                          then map (\<lambda>c. if 0x30 \<le> c \<and> c \<le> 0x39 then 0x6F0 + (c - 0x30) else c)
                                 (segText g)
                          else segText g"
  have p: "drop (length (paintedTexts (ops d))) (paintedTexts (ops (snd (snd ?r)))) =
           map (\<lambda>g. (printableText P g, fontName P, weightOf g)) ?segs"
          "take (length (paintedTexts (ops d))) (paintedTexts (ops (snd (snd ?r)))) =
           paintedTexts (ops d)"
    by (simp_all add: renderWord_facts)
  show ?thesis
    unfolding Let_def case_prod_beta p
    by (simp add: renderWord_facts getWordWidth_eq textForMeasure_printable comp_def
        printableText_def toPersianDigits_eq weightOf_def cong: if_cong)
qed


section \<open>Claims about page breaks and line rendering\<close>

text \<open>
  C4. In every arithmetic, the page-break check triggers exactly when
  \<open>y + lineHeight + 2 > pageHeight - footerHeight - marginBottom\<close>, both sides computed
  in the order written. When it triggers it asks the surface for a new page, adds one to
  the page counter and returns the callback's value at the new page number (the callback
  works on the surface after the new page) or, with no callback, \<open>marginTop + headerHeight\<close>.
  When it does not trigger it returns \<open>y\<close> and the printer state unchanged. In
  \<open>renderWords\<close> every line is rendered by \<open>renderLine\<close> on the surface and at the baseline
  that \<open>checkPageBreak\<close> returned for the state and baseline the previous line left
  behind, and the final state is the one the last line leaves behind.
\<close>

theorem C4_page_break:
  "(nGt A (nAdd A (nAdd A y (lineHeight P)) (nLit A 2))
          (nSub A (nSub A (printerPageHeight P) (footerHeight P)) (marginBottom P)) \<longrightarrow>
      pageCounter (snd (checkPageBreak A P s y)) = nAdd A (pageCounter s) (nLit A 1)
      \<and> (case onPageBreak P of
            Some f \<Rightarrow>
              fst (checkPageBreak A P s y)
                = fst (f (nAdd A (pageCounter s) (nLit A 1)) (addPage (doc s)))
              \<and> doc (snd (checkPageBreak A P s y))
                = snd (f (nAdd A (pageCounter s) (nLit A 1)) (addPage (doc s)))
          | None \<Rightarrow>
              fst (checkPageBreak A P s y) = nAdd A (marginTop P) (headerHeight P)
              \<and> doc (snd (checkPageBreak A P s y)) = addPage (doc s)))
   \<and> (\<not> nGt A (nAdd A (nAdd A y (lineHeight P)) (nLit A 2))
            (nSub A (nSub A (printerPageHeight P) (footerHeight P)) (marginBottom P)) \<longrightarrow>
      checkPageBreak A P s y = (y, s))
   \<and> ops (addPage (doc s)) = ops (doc s) @ [AddPage]
   \<and> (let (y', s', evs) = renderWords A M P s words startX startY j
      in threaded s evs s'
         \<and> (\<forall>e \<in> set evs.
               (ev_y e, ev_checked e) = checkPageBreak A P (ev_stateBefore e) (ev_yBefore e)
               \<and> ev_after e = renderLine A M P (doc (ev_checked e)) (ev_words e) startX (ev_y e)
                                 (ev_shouldJustify e) (ev_startState e)))"
proof -
  let ?t = "nGt A (nAdd A (nAdd A y (lineHeight P)) (nLit A 2))
          (nSub A (nSub A (printerPageHeight P) (footerHeight P)) (marginBottom P))"
  have a: "?t \<longrightarrow>
      pageCounter (snd (checkPageBreak A P s y)) = nAdd A (pageCounter s) (nLit A 1)
      \<and> (case onPageBreak P of
            Some f \<Rightarrow>
              fst (checkPageBreak A P s y)
                = fst (f (nAdd A (pageCounter s) (nLit A 1)) (addPage (doc s)))
              \<and> doc (snd (checkPageBreak A P s y))
                = snd (f (nAdd A (pageCounter s) (nLit A 1)) (addPage (doc s)))
          | None \<Rightarrow>
              fst (checkPageBreak A P s y) = nAdd A (marginTop P) (headerHeight P)
              \<and> doc (snd (checkPageBreak A P s y)) = addPage (doc s))"
    by (simp add: checkPageBreak_def Let_def case_prod_beta split: option.splits)
  have b: "\<not> ?t \<longrightarrow> checkPageBreak A P s y = (y, s)"
    by (simp add: checkPageBreak_def Let_def)
  let ?evs = "snd (snd (renderWords A M P s words startX startY j))"
  have c: "threaded s ?evs (fst (snd (renderWords A M P s words startX startY j)))"
    using renderWords_events[of s A M P words startX startY j] by simp
  have d: "\<forall>e \<in> set ?evs.
               (ev_y e, ev_checked e) = checkPageBreak A P (ev_stateBefore e) (ev_yBefore e)
               \<and> ev_after e = renderLine A M P (doc (ev_checked e)) (ev_words e) startX (ev_y e)
                                 (ev_shouldJustify e) (ev_startState e)"
  proof
    fix e assume "e \<in> set ?evs"
    then obtain i where "i < length ?evs" "e = ?evs ! i" by (metis in_set_conv_nth)
    then show "(ev_y e, ev_checked e) = checkPageBreak A P (ev_stateBefore e) (ev_yBefore e)
               \<and> ev_after e = renderLine A M P (doc (ev_checked e)) (ev_words e) startX (ev_y e)
                                 (ev_shouldJustify e) (ev_startState e)"
      using renderWords_events[of s A M P words startX startY j] by (simp add: eventOk_def)
  qed
  have e: "ops (addPage (doc s)) = ops (doc s) @ [AddPage]" by simp
  show ?thesis using a b c d e by (simp add: case_prod_beta Let_def)
qed


theorem C4_page_break_witness:
  "checkPageBreak exact examplePrinter exampleState 81
     = (10, \<lparr>doc = exampleDoc\<lparr>ops := [AddPage]\<rparr>, pageCounter = 2\<rparr>)
   \<and> fst (checkPageBreak exact (examplePrinter\<lparr>onPageBreak := Some (\<lambda>n d. (n * 7, d))\<rparr>)
            exampleState 81) = 14
   \<and> checkPageBreak exact examplePrinter exampleState 68 = (68, exampleState)
   \<and> map ev_y (snd (snd (renderWords exact exampleMetrics examplePrinter exampleState
        [js ''aaaa'', js ''bbbb'', js ''cc''] 200 65 True))) = [65, 10]"
proof -
  have e: "map ev_y (snd (snd (renderWords exact exampleMetrics examplePrinter exampleState
        [js ''aaaa'', js ''bbbb'', js ''cc''] 200 65 True))) = [65, 10]"
    by code_simp
  have f: "checkPageBreak exact examplePrinter exampleState 81
     = (10, \<lparr>doc = exampleDoc\<lparr>ops := [AddPage]\<rparr>, pageCounter = 2\<rparr>)"
    using C4_page_break[where A = exact and y = 81 and P = examplePrinter and s = exampleState
          and M = exampleMetrics and words = "[]" and startX = 0 and startY = 0 and j = False]
    by (cases "checkPageBreak exact examplePrinter exampleState 81")
       (cases "snd (checkPageBreak exact examplePrinter exampleState 81)",
        simp add: exampleState_def exampleDoc_def addPage_def)
  show ?thesis
    using f e
      C4_page_break[where A = exact and y = 81
          and P = "examplePrinter\<lparr>onPageBreak := Some (\<lambda>n d. (n * 7, d))\<rparr>"
          and s = exampleState
          and M = exampleMetrics and words = "[]" and startX = 0 and startY = 0 and j = False]
      C4_page_break[where A = exact and y = 68 and P = examplePrinter and s = exampleState
          and M = exampleMetrics and words = "[]" and startX = 0 and startY = 0 and j = False]
    by (simp add: exampleState_def)
qed

text \<open>
  C5. The lines \<open>renderWords\<close> renders for a paragraph partition its words in order. The
  surface each line leaves behind is the one \<open>renderJustifiedLine\<close> paints when
  justification is requested, the alignment is right, the line has more than one word and
  it is not the last line; in every other case it is the one \<open>renderRegularLine\<close> paints.
  For a paragraph with at least one word the final surface is the one \<open>renderRegularLine\<close>
  painted for the last line.
\<close>

theorem C5_justified_lines:
  "(let (y', s', evs) = renderWords A M P s words startX startY j
    in threaded s evs s'
       \<and> (\<forall>i < length evs.
             ev_after (evs ! i) =
               (if j \<and> align P = AlignRight \<and> 1 < length (ev_words (evs ! i))
                   \<and> Suc i < length evs
                then renderJustifiedLine A M P (doc (ev_checked (evs ! i))) (ev_words (evs ! i))
                       startX (ev_y (evs ! i)) (ev_startState (evs ! i))
                else renderRegularLine A M P (doc (ev_checked (evs ! i))) (ev_words (evs ! i))
                       startX (ev_y (evs ! i)) (ev_startState (evs ! i))))
       \<and> concat (map ev_words evs) = words
       \<and> (words \<noteq> [] \<longrightarrow>
            evs \<noteq> []
            \<and> doc s' = renderRegularLine A M P (doc (ev_checked (last evs))) (ev_words (last evs))
                         startX (ev_y (last evs)) (ev_startState (last evs))))"
proof -
  let ?R = "renderWords A M P s words startX startY j"
  let ?evs = "snd (snd ?R)"
  note ev = renderWords_events[of s A M P words startX startY j]
  note ch = renderWords_chain[of A M P s words startX startY j]
  have t: "threaded s ?evs (fst (snd ?R))" using ev by simp
  have a: "\<forall>i < length ?evs.
             ev_after (?evs ! i) =
               (if j \<and> align P = AlignRight \<and> 1 < length (ev_words (?evs ! i))
                   \<and> Suc i < length ?evs
                then renderJustifiedLine A M P (doc (ev_checked (?evs ! i))) (ev_words (?evs ! i))
                       startX (ev_y (?evs ! i)) (ev_startState (?evs ! i))
                else renderRegularLine A M P (doc (ev_checked (?evs ! i))) (ev_words (?evs ! i))
                       startX (ev_y (?evs ! i)) (ev_startState (?evs ! i)))"
  proof (intro allI impI)
    fix i assume i: "i < length ?evs"
    have ok: "eventOk A M P startX (?evs ! i)"
      and sj: "ev_shouldJustify (?evs ! i) =
                 (j \<and> 1 < length (ev_words (?evs ! i)) \<and> Suc i < length ?evs)"
      using ev i by simp_all
    have "ev_after (?evs ! i) =
            renderLine A M P (doc (ev_checked (?evs ! i))) (ev_words (?evs ! i)) startX
              (ev_y (?evs ! i)) (j \<and> 1 < length (ev_words (?evs ! i)) \<and> Suc i < length ?evs)
              (ev_startState (?evs ! i))"
      using ok unfolding eventOk_def sj by simp
    then show "ev_after (?evs ! i) =
               (if j \<and> align P = AlignRight \<and> 1 < length (ev_words (?evs ! i))
                   \<and> Suc i < length ?evs
                then renderJustifiedLine A M P (doc (ev_checked (?evs ! i))) (ev_words (?evs ! i))
                       startX (ev_y (?evs ! i)) (ev_startState (?evs ! i))
                else renderRegularLine A M P (doc (ev_checked (?evs ! i))) (ev_words (?evs ! i))
                       startX (ev_y (?evs ! i)) (ev_startState (?evs ! i)))"
      by (auto simp: renderLine_def)
  qed
  have c: "concat (map ev_words ?evs) = words" using ch by simp
  have l: "words \<noteq> [] \<longrightarrow>
            ?evs \<noteq> []
            \<and> doc (fst (snd ?R)) =
                renderRegularLine A M P (doc (ev_checked (last ?evs))) (ev_words (last ?evs))
                  startX (ev_y (last ?evs)) (ev_startState (last ?evs))"
  proof
    assume w: "words \<noteq> []"
    then have ne: "?evs \<noteq> []" using ch by simp
    have "doc (fst (snd ?R)) = ev_after (last ?evs)"
      using threaded_last[OF t ne] by simp
    moreover have "ev_after (last ?evs) =
        renderRegularLine A M P (doc (ev_checked (last ?evs))) (ev_words (last ?evs))
                  startX (ev_y (last ?evs)) (ev_startState (last ?evs))"
      using a ne by (simp add: last_conv_nth)
    ultimately show "?evs \<noteq> []
            \<and> doc (fst (snd ?R)) =
                renderRegularLine A M P (doc (ev_checked (last ?evs))) (ev_words (last ?evs))
                  startX (ev_y (last ?evs)) (ev_startState (last ?evs))"
      using ne by simp
  qed
  show ?thesis using t a c l by (simp add: case_prod_beta Let_def)
qed

theorem C5_justified_lines_witness:
  "length (snd (snd exampleRun)) = 2
   \<and> ev_words (snd (snd exampleRun) ! 0) = [js ''aaaa'', js ''bbbb'']
   \<and> ev_after (snd (snd exampleRun) ! 0) =
       renderJustifiedLine exact exampleMetrics examplePrinter
         (doc (ev_checked (snd (snd exampleRun) ! 0))) [js ''aaaa'', js ''bbbb''] 200
         (ev_y (snd (snd exampleRun) ! 0)) (ev_startState (snd (snd exampleRun) ! 0))
   \<and> ev_words (snd (snd exampleRun) ! 1) = [js ''cc'']
   \<and> ev_after (snd (snd exampleRun) ! 1) =
       renderRegularLine exact exampleMetrics examplePrinter
         (doc (ev_checked (snd (snd exampleRun) ! 1))) [js ''cc''] 200
         (ev_y (snd (snd exampleRun) ! 1)) (ev_startState (snd (snd exampleRun) ! 1))
   \<and> ops (doc (fst (snd exampleRun))) =
     [Text (js ''aaaa'') 200 20 False (js ''Vazir'') (js ''normal''),
      Text (js ''bbbb'') 194 20 False (js ''Vazir'') (js ''normal''),
      Text (js ''cc'') 200 30 False (js ''Vazir'') (js ''normal'')]"
proof -
  have len: "length (snd (snd exampleRun)) = 2"
    using arg_cong[OF exampleRun_values(2), of length] by simp
  have w0: "ev_words (snd (snd exampleRun) ! 0) = [js ''aaaa'', js ''bbbb'']"
    using arg_cong[OF exampleRun_values(2), of "\<lambda>l. l ! 0"] len by simp
  have w1: "ev_words (snd (snd exampleRun) ! 1) = [js ''cc'']"
    using arg_cong[OF exampleRun_values(2), of "\<lambda>l. l ! 1"] len by simp
  note t = C5_justified_lines[where A = exact and M = exampleMetrics and P = examplePrinter
      and s = exampleState and words = "[js ''aaaa'', js ''bbbb'', js ''cc'']"
      and startX = 200 and startY = 20 and j = True, folded exampleRun_def]
  have a: "\<forall>i < 2.
             ev_after (snd (snd exampleRun) ! i) =
               (if 1 < length (ev_words (snd (snd exampleRun) ! i)) \<and> Suc i < 2
                then renderJustifiedLine exact exampleMetrics examplePrinter
                       (doc (ev_checked (snd (snd exampleRun) ! i)))
                       (ev_words (snd (snd exampleRun) ! i))
                       200 (ev_y (snd (snd exampleRun) ! i)) (ev_startState (snd (snd exampleRun) ! i))
                else renderRegularLine exact exampleMetrics examplePrinter
                       (doc (ev_checked (snd (snd exampleRun) ! i)))
                       (ev_words (snd (snd exampleRun) ! i))
                       200 (ev_y (snd (snd exampleRun) ! i)) (ev_startState (snd (snd exampleRun) ! i)))"
    using t by (simp add: case_prod_beta Let_def len)
  have a0: "ev_after (snd (snd exampleRun) ! 0) =
       renderJustifiedLine exact exampleMetrics examplePrinter
         (doc (ev_checked (snd (snd exampleRun) ! 0))) [js ''aaaa'', js ''bbbb''] 200
         (ev_y (snd (snd exampleRun) ! 0)) (ev_startState (snd (snd exampleRun) ! 0))"
    using a w0 by simp
  have a1: "ev_after (snd (snd exampleRun) ! 1) =
       renderRegularLine exact exampleMetrics examplePrinter
         (doc (ev_checked (snd (snd exampleRun) ! 1))) [js ''cc''] 200
         (ev_y (snd (snd exampleRun) ! 1)) (ev_startState (snd (snd exampleRun) ! 1))"
    using a w1 by simp
  show ?thesis using len w0 w1 a0 a1 exampleRun_values(4) by simp
qed

section \<open>Claims about the geometry of a justified line\<close>



end
